theory Spec2Isabelle
  imports Main "HOL-Library.Multiset"
begin

section \<open>JavaScript values\<close>

text \<open>
  The extension is TypeScript whose data is typed \<open>any\<close> at every boundary (storage,
  the AI reply, the tab lists), so values are modelled untyped.  Strings are lists of
  8-bit code units: the model covers JavaScript strings whose UTF-16 code units are
  below 256 (Latin-1).  Numbers are integers; only their identity and their truthiness
  (zero or not) are used.  \<open>JBuiltin k\<close> is the value a plain object inherits under the
  name \<open>k\<close> from \<open>Object.prototype\<close> (a function, or the prototype object itself).
\<close>

datatype jsval =
    JUndefined
  | JNull
  | JBool bool
  | JNum int
  | JStr string
  | JArr "jsval list"
  | JObj "(string \<times> jsval) list"
  | JBuiltin string

datatype error =
    Error string      \<comment> \<open>\<open>throw new Error(message)\<close>, or a rejected host promise\<close>
  | TypeError string  \<comment> \<open>raised by the language itself\<close>

fun truthy :: "jsval \<Rightarrow> bool" where
  "truthy JUndefined = False"
| "truthy JNull = False"
| "truthy (JBool b) = b"
| "truthy (JNum n) = (n \<noteq> 0)"
| "truthy (JStr s) = (s \<noteq> [])"
| "truthy (JArr xs) = True"
| "truthy (JObj fs) = True"
| "truthy (JBuiltin k) = True"

text \<open>The names every plain object (\<open>{}\<close>) inherits from \<open>Object.prototype\<close>.\<close>

definition object_prototype_keys :: "string list" where
  "object_prototype_keys =
     [''constructor'', ''__defineGetter__'', ''__defineSetter__'', ''hasOwnProperty'',
      ''__lookupGetter__'', ''__lookupSetter__'', ''isPrototypeOf'',
      ''propertyIsEnumerable'', ''toString'', ''valueOf'', ''__proto__'',
      ''toLocaleString'']"

text \<open>\<open>obj[k]\<close> on a plain object with own properties \<open>fs\<close>: own first, then inherited.\<close>

definition own_or_inherited :: "(string \<rightharpoonup> jsval) \<Rightarrow> string \<Rightarrow> jsval" where
  "own_or_inherited own k =
     (case own k of
        Some v \<Rightarrow> v
      | None \<Rightarrow> if k \<in> set object_prototype_keys then JBuiltin k else JUndefined)"

text \<open>\<open>v.k\<close> for a value that is not null or undefined (those raise and are handled
  at each use).  Arrays and primitives have none of the property names read by this
  program.\<close>

fun get_prop :: "jsval \<Rightarrow> string \<Rightarrow> jsval" where
  "get_prop (JObj fs) k = own_or_inherited (map_of fs) k"
| "get_prop v k = (if k \<in> set object_prototype_keys then JBuiltin k else JUndefined)"

fun is_array :: "jsval \<Rightarrow> bool" where
  "is_array (JArr xs) = True"
| "is_array v = False"

text \<open>\<open>typeof v === 'object'\<close>.\<close>

fun typeof_object :: "jsval \<Rightarrow> bool" where
  "typeof_object JNull = True"
| "typeof_object (JArr xs) = True"
| "typeof_object (JObj fs) = True"
| "typeof_object (JBuiltin k) = (k = ''__proto__'')"
| "typeof_object v = False"

text \<open>
  What a value becomes when the host serialises it for storage, as \<open>JSON.stringify\<close>
  does: \<open>undefined\<close> and functions vanish (\<open>None\<close>) at the top and inside objects, and
  turn into \<open>null\<close> inside arrays.  \<open>json_value\<close> holds of the values that contain
  neither.
\<close>

fun serialise :: "jsval \<Rightarrow> jsval option" where
  "serialise JUndefined = None"
| "serialise (JBuiltin k) = None"
| "serialise (JArr xs) =
     Some (JArr (map (\<lambda>x. case serialise x of None \<Rightarrow> JNull | Some y \<Rightarrow> y) xs))"
| "serialise (JObj fs) =
     Some (JObj (concat (map (\<lambda>(k, w). case serialise w of None \<Rightarrow> [] | Some y \<Rightarrow> [(k, y)])
                          fs)))"
| "serialise v = Some v"

fun json_value :: "jsval \<Rightarrow> bool" where
  "json_value JUndefined = False"
| "json_value (JBuiltin k) = False"
| "json_value (JArr xs) = list_all json_value xs"
| "json_value (JObj fs) = list_all (\<lambda>kv. json_value (snd kv)) fs"
| "json_value v = True"

section \<open>The host: WebExtensions storage\<close>

text \<open>
  A storage area (\<open>chrome.storage.local\<close> or \<open>.sync\<close>) is the host's, not the
  extension's.  It is modelled as the WebExtensions documentation describes it: a map
  from keys to values; \<open>set\<close> merges the given property into it, serialised (a property
  whose value is \<open>undefined\<close> does not survive, so nothing is written); \<open>get(key)\<close>
  answers with an object holding the key when it is stored; \<open>remove\<close> deletes it.
  Any call may instead fail with \<open>runtime.lastError\<close>, or hand the callback something
  that is not an object: the \<open>script\<close> lists what goes wrong with the coming calls, one
  entry per call, and an exhausted script means no more faults.
\<close>

datatype fault = LastError string | BadResult

record area =
  items :: "string \<rightharpoonup> jsval"
  script :: "fault option list"

definition next_fault :: "area \<Rightarrow> fault option \<times> area" where
  "next_fault a =
     (case script a of
        [] \<Rightarrow> (None, a)
      | f # fs \<Rightarrow> (f, a\<lparr>script := fs\<rparr>))"

text \<open>\<open>area.set({[k]: v}, callback)\<close>: the error left in \<open>lastError\<close>, if any.\<close>

definition area_set :: "string \<Rightarrow> jsval \<Rightarrow> area \<Rightarrow> string option \<times> area" where
  "area_set k v a =
     (case next_fault a of
        (Some (LastError m), a') \<Rightarrow> (Some m, a')
      | (_, a') \<Rightarrow>
          (None, case serialise v of
                   None \<Rightarrow> a'
                 | Some w \<Rightarrow> a'\<lparr>items := (items a')(k \<mapsto> w)\<rparr>))"

definition area_remove :: "string \<Rightarrow> area \<Rightarrow> string option \<times> area" where
  "area_remove k a =
     (case next_fault a of
        (Some (LastError m), a') \<Rightarrow> (Some m, a')
      | (_, a') \<Rightarrow> (None, a'\<lparr>items := (items a')(k := None)\<rparr>))"

text \<open>\<open>area.get(k, callback)\<close>: \<open>lastError\<close>, or the callback's argument: \<open>None\<close> when
  it is not an object, else the own properties of the result object.\<close>

definition area_get :: "string \<Rightarrow> area \<Rightarrow> (string + (string \<rightharpoonup> jsval) option) \<times> area" where
  "area_get k a =
     (case next_fault a of
        (Some (LastError m), a') \<Rightarrow> (Inl m, a')
      | (Some BadResult, a') \<Rightarrow> (Inr None, a')
      | (None, a') \<Rightarrow> (Inr (Some ((items a') |` {k})), a'))"

section \<open>StorageService\<close>

text \<open>
  What the module sees of its environment when it is loaded: the global \<open>chrome\<close>,
  \<open>window.browser\<close> and \<open>window.chrome\<close>, each absent or an API object whose
  \<open>storage\<close> member is absent or has a \<open>local\<close> and a \<open>sync\<close> area, each absent or
  present.
\<close>

record storage_api =
  local_area :: bool
  sync_area :: bool

record api_object =
  storage :: "storage_api option"

record environment =
  global_chrome :: "api_object option"
  window_browser :: "api_object option"
  window_chrome :: "api_object option"

definition has_storage :: "api_object option \<Rightarrow> bool" where
  "has_storage api = (case api of None \<Rightarrow> False | Some a \<Rightarrow> storage a \<noteq> None)"

text \<open>The compatibility layer at the top of \<open>storageService.ts\<close>.\<close>

definition browserAPI :: "environment \<Rightarrow> api_object option" where
  "browserAPI env =
     (if has_storage (global_chrome env) then global_chrome env
      else if has_storage (window_browser env) then window_browser env
      else if has_storage (window_chrome env) then window_chrome env
      else None)"

datatype area_kind = Local | Sync

text \<open>\<open>new StorageService()\<close>: the area the service will use, or the error thrown.\<close>

definition StorageService_constructor :: "environment \<Rightarrow> error + area_kind" where
  "StorageService_constructor env =
     (case browserAPI env of
        None \<Rightarrow> Inl (Error ''Browser API not available'')
      | Some api \<Rightarrow>
          (case storage api of
             None \<Rightarrow> Inl (Error ''Browser storage API not available'')
           | Some st \<Rightarrow>
               if local_area st then Inr Local
               else if sync_area st then Inr Sync
               else Inl (Error ''No storage API available'')))"

text \<open>\<open>saveSetting\<close>: rethrows a failed write.\<close>

definition saveSetting :: "string \<Rightarrow> jsval \<Rightarrow> area \<Rightarrow> (error + unit) \<times> area" where
  "saveSetting key v a =
     (case area_set key v a of
        (Some m, a') \<Rightarrow> (Inl (Error m), a')
      | (None, a') \<Rightarrow> (Inr (), a'))"

text \<open>\<open>getSetting\<close>: never throws; a failed read, a result that is not an object and a
  missing key all give \<open>null\<close>.\<close>

definition getSetting :: "string \<Rightarrow> area \<Rightarrow> jsval \<times> area" where
  "getSetting key a =
     (case area_get key a of
        (Inl m, a') \<Rightarrow> (JNull, a')
      | (Inr None, a') \<Rightarrow> (JNull, a')
      | (Inr (Some result), a') \<Rightarrow>
          (let v = own_or_inherited result key
           in (if v \<noteq> JUndefined then v else JNull, a')))"

definition removeSetting :: "string \<Rightarrow> area \<Rightarrow> (error + unit) \<times> area" where
  "removeSetting key a =
     (case area_remove key a of
        (Some m, a') \<Rightarrow> (Inl (Error m), a')
      | (None, a') \<Rightarrow> (Inr (), a'))"

text \<open>The convenience methods \<open>get\<close> and \<open>set\<close>.\<close>

definition storage_get :: "string \<Rightarrow> area \<Rightarrow> jsval \<times> area" where
  "storage_get key a = getSetting key a"

definition storage_set :: "string \<Rightarrow> jsval \<Rightarrow> area \<Rightarrow> (error + unit) \<times> area" where
  "storage_set key v a = saveSetting key v a"

section \<open>Strings\<close>

text \<open>\<open>\s\<close>, which is also what \<open>trim\<close> removes: tab, line feed, vertical tab, form feed,
  carriage return, space and no-break space.\<close>

definition is_space :: "char \<Rightarrow> bool" where
  "is_space c = (c \<in> set [CHR 0x09, CHR 0x0A, CHR 0x0B, CHR 0x0C, CHR 0x0D, CHR 0x20, CHR 0xA0])"

text \<open>\<open>\w\<close>.\<close>

definition is_word :: "char \<Rightarrow> bool" where
  "is_word c =
     (c \<in> set ''abcdefghijklmnopqrstuvwxyzABCDEFGHIJKLMNOPQRSTUVWXYZ0123456789_'')"

text \<open>\<open>toLowerCase\<close> on Latin-1: the letters A to Z and the capital letters from
  \<open>0xC0\<close> to \<open>0xDE\<close> (the multiplication sign \<open>0xD7\<close> apart) move to the code 32 higher.\<close>

definition upper_case :: string where
  "upper_case = ''ABCDEFGHIJKLMNOPQRSTUVWXYZ''
     @ [CHR 0xC0, CHR 0xC1, CHR 0xC2, CHR 0xC3, CHR 0xC4, CHR 0xC5, CHR 0xC6, CHR 0xC7,
        CHR 0xC8, CHR 0xC9, CHR 0xCA, CHR 0xCB, CHR 0xCC, CHR 0xCD, CHR 0xCE, CHR 0xCF,
        CHR 0xD0, CHR 0xD1, CHR 0xD2, CHR 0xD3, CHR 0xD4, CHR 0xD5, CHR 0xD6,
        CHR 0xD8, CHR 0xD9, CHR 0xDA, CHR 0xDB, CHR 0xDC, CHR 0xDD, CHR 0xDE]"

definition lower_case :: string where
  "lower_case = ''abcdefghijklmnopqrstuvwxyz''
     @ [CHR 0xE0, CHR 0xE1, CHR 0xE2, CHR 0xE3, CHR 0xE4, CHR 0xE5, CHR 0xE6, CHR 0xE7,
        CHR 0xE8, CHR 0xE9, CHR 0xEA, CHR 0xEB, CHR 0xEC, CHR 0xED, CHR 0xEE, CHR 0xEF,
        CHR 0xF0, CHR 0xF1, CHR 0xF2, CHR 0xF3, CHR 0xF4, CHR 0xF5, CHR 0xF6,
        CHR 0xF8, CHR 0xF9, CHR 0xFA, CHR 0xFB, CHR 0xFC, CHR 0xFD, CHR 0xFE]"

definition to_lower_char :: "char \<Rightarrow> char" where
  "to_lower_char c =
     (case map_of (zip upper_case lower_case) c of Some l \<Rightarrow> l | None \<Rightarrow> c)"

definition toLowerCase :: "string \<Rightarrow> string" where
  "toLowerCase s = map to_lower_char s"

text \<open>\<open>s.startsWith(p)\<close> and \<open>s.includes(sub)\<close>.\<close>

fun startsWith :: "string \<Rightarrow> string \<Rightarrow> bool" where
  "startsWith s [] = True"
| "startsWith [] (p # ps) = False"
| "startsWith (c # cs) (p # ps) = (c = p \<and> startsWith cs ps)"

fun includes_str :: "string \<Rightarrow> string \<Rightarrow> bool" where
  "includes_str [] sub = (sub = [])"
| "includes_str (c # cs) sub = (startsWith (c # cs) sub \<or> includes_str cs sub)"

text \<open>\<open>s.trim()\<close>.\<close>

definition trim :: "string \<Rightarrow> string" where
  "trim s = rev (dropWhile is_space (rev (dropWhile is_space s)))"

text \<open>
  \<open>s.match(/\{[\s\S]*\}/)\<close>: the search starts at the first \<open>{\<close>, and the greedy star
  gives back characters until a \<open>}\<close> closes the match, so the match ends at the last
  \<open>}\<close>.  There is none when no \<open>}\<close> follows the first \<open>{\<close>.
\<close>

definition json_match :: "string \<Rightarrow> string option" where
  "json_match s =
     (let t = dropWhile (\<lambda>c. c \<noteq> CHR ''{'') s
      in if CHR ''}'' \<in> set t
         then Some (rev (dropWhile (\<lambda>c. c \<noteq> CHR ''}'') (rev t)))
         else None)"

text \<open>
  The three global replacements scan from left to right; where the pattern matches,
  the replacement is written and the scan goes on behind the match, elsewhere one
  character is copied.  In each pattern the greedy runs are followed by a character
  outside their class, so the longest run is the only one that can match.

  \<open>.replace(/,(\s*[}\]])/g, '$1')\<close>: a comma, white space and a closing brace or
  bracket lose the comma.
\<close>

function remove_trailing_commas :: "string \<Rightarrow> string" where
  "remove_trailing_commas [] = []"
| "remove_trailing_commas (c # cs) =
     (case dropWhile is_space cs of
        [] \<Rightarrow> c # remove_trailing_commas cs
      | b # rest \<Rightarrow>
          if c = CHR '','' \<and> (b = CHR ''}'' \<or> b = CHR '']'')
          then takeWhile is_space cs @ b # remove_trailing_commas rest
          else c # remove_trailing_commas cs)"
  by pat_completeness auto
termination
proof (relation "measure length")
  fix c :: char and cs b rest
  assume "dropWhile is_space cs = b # rest"
  then have "length (b # rest) \<le> length cs"
    by (metis length_dropWhile_le)
  then show "(rest, c # cs) \<in> measure length" by simp
qed simp_all

text \<open>\<open>.replace(/([{,]\s*)(\w+):/g, '$1"$2":')\<close>: after an opening brace or a comma and
  white space, a word followed by a colon is put in double quotes.\<close>

function quote_keys :: "string \<Rightarrow> string" where
  "quote_keys [] = []"
| "quote_keys (c # cs) =
     (case dropWhile is_word (dropWhile is_space cs) of
        [] \<Rightarrow> c # quote_keys cs
      | d # rest \<Rightarrow>
          if (c = CHR ''{'' \<or> c = CHR '','')
             \<and> takeWhile is_word (dropWhile is_space cs) \<noteq> [] \<and> d = CHR '':''
          then c # takeWhile is_space cs @ CHR 0x22
                 # takeWhile is_word (dropWhile is_space cs) @ CHR 0x22 # CHR '':''
                 # quote_keys rest
          else c # quote_keys cs)"
  by pat_completeness auto
termination
proof (relation "measure length")
  fix c :: char and cs d rest
  assume "dropWhile is_word (dropWhile is_space cs) = d # rest"
  then have "length (d # rest) \<le> length (dropWhile is_space cs)"
    by (metis length_dropWhile_le)
  also have "\<dots> \<le> length cs"
    by (rule length_dropWhile_le)
  finally show "(rest, c # cs) \<in> measure length" by simp
qed simp_all

text \<open>\<open>.replace(/:\s*'([^']*)'/g, ': "$1"')\<close>: a colon, white space and a stretch between
  two single quotes become the colon, one space and the stretch in double quotes.\<close>

function single_to_double_quotes :: "string \<Rightarrow> string" where
  "single_to_double_quotes [] = []"
| "single_to_double_quotes (c # cs) =
     (case dropWhile is_space cs of
        [] \<Rightarrow> c # single_to_double_quotes cs
      | q # body \<Rightarrow>
          (case dropWhile (\<lambda>x. x \<noteq> CHR 0x27) body of
             [] \<Rightarrow> c # single_to_double_quotes cs
           | q' # rest \<Rightarrow>
               if c = CHR '':'' \<and> q = CHR 0x27
               then CHR '':'' # CHR 0x20 # CHR 0x22
                      # takeWhile (\<lambda>x. x \<noteq> CHR 0x27) body @ CHR 0x22
                      # single_to_double_quotes rest
               else c # single_to_double_quotes cs))"
  by pat_completeness auto
termination
proof (relation "measure length")
  fix c :: char and cs q body q' rest
  assume a: "dropWhile is_space cs = q # body"
    and b: "dropWhile (\<lambda>x. x \<noteq> CHR 0x27) body = q' # rest"
  have "length (q' # rest) \<le> length body"
    using b by (metis length_dropWhile_le)
  moreover have "length (q # body) \<le> length cs"
    using a by (metis length_dropWhile_le)
  ultimately show "(rest, c # cs) \<in> measure length" by simp
qed simp_all

text \<open>The clean-up of the reply in \<open>analyzeTabs\<close>, from \<open>content.trim()\<close> to the string
  handed to \<open>JSON.parse\<close>.\<close>

definition repair :: "string \<Rightarrow> string" where
  "repair content =
     (let trimmed = trim content;
          cleanedContent = (case json_match trimmed of Some m \<Rightarrow> m | None \<Rightarrow> trimmed)
      in single_to_double_quotes (quote_keys (remove_trailing_commas cleanedContent)))"

section \<open>AIService\<close>

text \<open>
  An \<open>AIResponse\<close>.  A reply of the AI service is passed on as it was parsed, so a
  subject and a tab are any value.  The log callback of the service is not modelled,
  nor is the field \<open>apiKey\<close>, which is written from storage by every \<open>getApiKey\<close> and
  read nowhere else.
\<close>

record tab_group =
  subject :: jsval
  tabs :: "jsval list"

record AIResponse =
  groups :: "tab_group list"
  suggestions :: "jsval list"

text \<open>
  What the service needs from the JavaScript host besides storage: \<open>fetch\<close>, which
  rejects (\<open>Inl\<close>) or resolves to a response whose \<open>text()\<close> and \<open>json()\<close> may reject
  (\<open>None\<close>); \<open>JSON.parse\<close>, \<open>None\<close> when it throws; and the \<open>hostname\<close> of \<open>new URL(u)\<close>,
  \<open>None\<close> when the constructor throws.  A request is the endpoint, the key sent as
  bearer token and the tabs serialised into the prompt.
\<close>

record http_response =
  ok :: bool
  status :: nat
  body_text :: "string option"
  body_json :: "jsval option"

record request =
  endpoint :: string
  bearer :: jsval
  mappedTabs :: "jsval list"

record js_host =
  fetch :: "request \<Rightarrow> string + http_response"
  JSON_parse :: "string \<Rightarrow> jsval option"
  URL_hostname :: "string \<Rightarrow> string option"

text \<open>\<open>getApiKey\<close>: the key or \<open>null\<close>; throws when removing a malformed key fails.\<close>

definition getApiKey :: "area \<Rightarrow> (error + jsval) \<times> area" where
  "getApiKey a =
     (case storage_get ''openai_api_key'' a of
        (apiKey, a1) \<Rightarrow>
          (case apiKey of
             JStr s \<Rightarrow>
               if truthy apiKey then
                 if startsWith s ''sk-'' \<and> length s > 20 then (Inr apiKey, a1)
                 else (case removeSetting ''openai_api_key'' a1 of
                         (Inl e, a2) \<Rightarrow> (Inl e, a2)
                       | (Inr u, a2) \<Rightarrow> (Inr JNull, a2))
               else (Inr apiKey, a1)
           | _ \<Rightarrow> (Inr apiKey, a1)))"

definition setApiKey :: "string \<Rightarrow> area \<Rightarrow> (error + unit) \<times> area" where
  "setApiKey apiKey a = storage_set ''openai_api_key'' (JStr apiKey) a"

text \<open>\<open>extractDomain\<close>: the host name of the url, \<open>Other\<close> when it does not parse.\<close>

definition extractDomain :: "js_host \<Rightarrow> string \<Rightarrow> string" where
  "extractDomain h u = (case URL_hostname h u of Some hostname \<Rightarrow> hostname | None \<Rightarrow> ''Other'')"

text \<open>The conditions of \<open>categorizeTab\<close>, in the order of the source, on the lower-case
  title and url.\<close>

definition communication_rule :: "string \<Rightarrow> string \<Rightarrow> bool" where
  "communication_rule title url =
     (includes_str title ''whatsapp'' \<or> includes_str title ''outlook''
      \<or> includes_str title ''calendar'' \<or> includes_str title ''gmail''
      \<or> includes_str title ''slack'' \<or> includes_str title ''discord''
      \<or> includes_str title ''linkedin'' \<or> includes_str url ''linkedin''
      \<or> includes_str url ''whatsapp'' \<or> includes_str url ''outlook''
      \<or> includes_str url ''mail'')"

definition development_rule :: "string \<Rightarrow> string \<Rightarrow> bool" where
  "development_rule title url =
     (includes_str title ''github'' \<or> includes_str title ''api''
      \<or> includes_str title ''documentation'' \<or> includes_str title ''docs''
      \<or> includes_str title ''developer'' \<or> includes_str url ''github''
      \<or> includes_str url ''developer'' \<or> includes_str url ''docs''
      \<or> includes_str title ''chrome.tabs'' \<or> includes_str title ''trpc''
      \<or> includes_str title ''next.js'' \<or> includes_str title ''chakra'')"

definition ai_tools_rule :: "string \<Rightarrow> string \<Rightarrow> bool" where
  "ai_tools_rule title url =
     (includes_str title ''chatgpt'' \<or> includes_str title ''openai''
      \<or> includes_str title ''cursor'' \<or> includes_str title ''ultracite''
      \<or> includes_str url ''chatgpt'' \<or> includes_str url ''openai''
      \<or> includes_str url ''cursor'' \<or> includes_str url ''ultracite'')"

definition research_rule :: "string \<Rightarrow> string \<Rightarrow> bool" where
  "research_rule title url =
     (includes_str title ''google search'' \<or> includes_str title ''search''
      \<or> includes_str url ''google.com/search'')"

definition government_rule :: "string \<Rightarrow> string \<Rightarrow> bool" where
  "government_rule title url =
     (includes_str url ''gov.sg'' \<or> includes_str title ''singapore government''
      \<or> includes_str title ''optical documentation'' \<or> includes_str title ''pricing'')"

definition dev_tools_rule :: "string \<Rightarrow> string \<Rightarrow> bool" where
  "dev_tools_rule title url =
     (includes_str title ''uuid'' \<or> includes_str title ''generator''
      \<or> includes_str title ''cuid'' \<or> includes_str title ''vercel''
      \<or> includes_str title ''template'' \<or> includes_str url ''localhost'')"

definition browser_rule :: "string \<Rightarrow> string \<Rightarrow> bool" where
  "browser_rule title url =
     (includes_str url ''about:'' \<or> includes_str url ''moz-extension''
      \<or> includes_str url ''chrome-extension'' \<or> includes_str title ''extension''
      \<or> includes_str title ''debugging'')"

text \<open>The decision chain of \<open>categorizeTab\<close> on the two strings it reads.\<close>

definition categorize :: "js_host \<Rightarrow> string \<Rightarrow> string \<Rightarrow> string" where
  "categorize h tab_title tab_url =
     (let title = toLowerCase tab_title; url = toLowerCase tab_url in
      if communication_rule title url then ''Communication & Social''
      else if development_rule title url then ''Development & Documentation''
      else if ai_tools_rule title url then ''AI Tools & Platforms''
      else if research_rule title url
      then (if includes_str title ''optical'' \<or> includes_str url ''optical''
            then ''Research: Optical Technology''
            else if includes_str title ''shiphats'' \<or> includes_str title ''gitlab''
            then ''Research: Development Tools''
            else ''Research & Information'')
      else if government_rule title url then ''Government & Official Documentation''
      else if dev_tools_rule title url then ''Development Tools & Utilities''
      else if browser_rule title url then ''Browser & Extensions''
      else extractDomain h tab_url)"

text \<open>\<open>categorizeTab(tab)\<close>: \<open>tab.title.toLowerCase()\<close> and \<open>tab.url.toLowerCase()\<close>
  raise a TypeError on anything but a string.\<close>

definition categorizeTab :: "js_host \<Rightarrow> jsval \<Rightarrow> error + string" where
  "categorizeTab h tab =
     (case get_prop tab ''title'' of
        JStr t \<Rightarrow>
          (case get_prop tab ''url'' of
             JStr u \<Rightarrow> Inr (categorize h t u)
           | _ \<Rightarrow> Inl (TypeError ''tab.url.toLowerCase is not a function''))
      | _ \<Rightarrow> Inl (TypeError ''tab.title.toLowerCase is not a function''))"

text \<open>
  The local \<open>groups\<close> of \<open>createFallbackGrouping\<close> is a plain object (\<open>{}\<close>) used as a
  dictionary: its own properties in insertion order, each an array of tabs.
  \<open>if (!groups[category]) groups[category] = []; groups[category].push(tab)\<close>:
  an own property is an array and takes the tab; a name inherited from
  \<open>Object.prototype\<close> is truthy, is not initialised, and has no \<open>push\<close>.
\<close>

definition push_tab ::
  "(string \<times> jsval list) list \<Rightarrow> string \<Rightarrow> jsval \<Rightarrow> error + (string \<times> jsval list) list" where
  "push_tab gs category tab =
     (case map_of gs category of
        Some ts \<Rightarrow> Inr (map (\<lambda>(k, v). if k = category then (k, v @ [tab]) else (k, v)) gs)
      | None \<Rightarrow>
          if category \<in> set object_prototype_keys
          then Inl (TypeError ''groups[category].push is not a function'')
          else Inr (gs @ [(category, [tab])]))"

text \<open>The \<open>tabs.forEach\<close> loop.\<close>

fun collect_groups ::
  "js_host \<Rightarrow> (string \<times> jsval list) list \<Rightarrow> jsval list \<Rightarrow> error + (string \<times> jsval list) list" where
  "collect_groups h gs [] = Inr gs"
| "collect_groups h gs (tab # rest) =
     (if \<not> truthy tab \<or> \<not> typeof_object tab \<or> \<not> truthy (get_prop tab ''url'')
         \<or> \<not> truthy (get_prop tab ''title'')
      then collect_groups h gs rest
      else (case categorizeTab h tab of
              Inl e \<Rightarrow> Inl e
            | Inr category \<Rightarrow>
                (case push_tab gs category tab of
                   Inl e \<Rightarrow> Inl e
                 | Inr gs' \<Rightarrow> collect_groups h gs' rest)))"

text \<open>
  \<open>Object.entries\<close> lists the own properties whose names are array indices
  (canonical decimal numerals below \<open>2^32 - 1\<close>) first, in ascending order, and the
  others after them in insertion order.
\<close>

definition is_digit :: "char \<Rightarrow> bool" where
  "is_digit c = (c \<in> set ''0123456789'')"

definition digit_value :: "char \<Rightarrow> int" where
  "digit_value c =
     (case map_of (zip ''0123456789'' [0, 1, 2, 3, 4, 5, 6, 7, 8, 9]) c of
        Some d \<Rightarrow> d
      | None \<Rightarrow> 0)"

definition numeral_value :: "string \<Rightarrow> int" where
  "numeral_value s = foldl (\<lambda>n c. 10 * n + digit_value c) 0 s"

definition is_array_index :: "string \<Rightarrow> bool" where
  "is_array_index s =
     (s \<noteq> [] \<and> list_all is_digit s \<and> (s = ''0'' \<or> hd s \<noteq> CHR ''0'')
      \<and> length s \<le> 10 \<and> numeral_value s < 4294967295)"

definition object_entries :: "(string \<times> 'a) list \<Rightarrow> (string \<times> 'a) list" where
  "object_entries ps =
     sort_key (\<lambda>p. numeral_value (fst p)) (filter (\<lambda>p. is_array_index (fst p)) ps)
     @ filter (\<lambda>p. \<not> is_array_index (fst p)) ps"

definition createFallbackGrouping :: "js_host \<Rightarrow> jsval \<Rightarrow> error + AIResponse list" where
  "createFallbackGrouping h input =
     (case input of
        JArr ts \<Rightarrow>
          if ts = [] then
            Inr [\<lparr>groups = [],
                  suggestions = [JStr ''No tabs available for grouping - empty array'']\<rparr>]
          else
            (case collect_groups h [] ts of
               Inl e \<Rightarrow> Inl e
             | Inr gs \<Rightarrow>
                 Inr [\<lparr>groups = map (\<lambda>(category, tabsInGroup).
                                       \<lparr>subject = JStr category, tabs = tabsInGroup\<rparr>)
                                    (object_entries gs),
                       suggestions = [JStr ''Group by semantic topic'',
                                      JStr ''Group by work context'',
                                      JStr ''Group by purpose and function'']\<rparr>])
      | _ \<Rightarrow>
          Inr [\<lparr>groups = [],
                suggestions =
                  [JStr ''No tabs available for grouping - input was not an array'']\<rparr>])"

text \<open>The body of the two \<open>groups.map\<close> callbacks of \<open>validateAndFormatResponse\<close>.\<close>

definition format_group :: "jsval \<Rightarrow> tab_group" where
  "format_group g =
     (if \<not> truthy g then \<lparr>subject = JStr ''Unknown'', tabs = []\<rparr>
      else \<lparr>subject = (if truthy (get_prop g ''subject'') then get_prop g ''subject''
                       else JStr ''Unknown''),
            tabs = (case get_prop g ''tabs'' of JArr ts \<Rightarrow> ts | _ \<Rightarrow> [])\<rparr>)"

definition array_or_empty :: "jsval \<Rightarrow> jsval list" where
  "array_or_empty v = (case v of JArr xs \<Rightarrow> xs | _ \<Rightarrow> [])"

text \<open>The \<open>for\<close> loop over an array reply.\<close>

fun validate_items :: "jsval list \<Rightarrow> AIResponse list" where
  "validate_items [] = []"
| "validate_items (item # rest) =
     (if \<not> truthy item \<or> \<not> typeof_object item then validate_items rest
      else (case get_prop item ''groups'' of
              JArr gs \<Rightarrow>
                \<lparr>groups = map format_group gs,
                 suggestions = array_or_empty (get_prop item ''suggestions'')\<rparr>
                # validate_items rest
            | _ \<Rightarrow>
                \<lparr>groups = [],
                 suggestions = array_or_empty (get_prop item ''suggestions'')\<rparr>
                # validate_items rest))"

definition validateAndFormatResponse ::
  "js_host \<Rightarrow> jsval \<Rightarrow> jsval \<Rightarrow> error + AIResponse list" where
  "validateAndFormatResponse h groupedTabs input =
     (if truthy groupedTabs \<and> typeof_object groupedTabs \<and> \<not> is_array groupedTabs then
        (case get_prop groupedTabs ''groups'' of
           JArr gs \<Rightarrow>
             Inr [\<lparr>groups = map format_group gs,
                   suggestions = array_or_empty (get_prop groupedTabs ''suggestions'')\<rparr>]
         | _ \<Rightarrow> createFallbackGrouping h input)
      else
        (case groupedTabs of
           JArr its \<Rightarrow>
             (let validatedResponse = validate_items its
              in if validatedResponse = [] then createFallbackGrouping h input
                 else Inr validatedResponse)
         | _ \<Rightarrow> createFallbackGrouping h input))"

text \<open>\<open>tabs.map(...)\<close> preparing the request.\<close>

definition map_tab :: "jsval \<Rightarrow> jsval" where
  "map_tab tab =
     (if \<not> truthy tab
      then JObj [(''id'', JNum 0), (''title'', JStr ''Unknown''), (''url'', JStr ''about:blank'')]
      else JObj [(''id'', get_prop tab ''id''), (''title'', get_prop tab ''title''),
                 (''url'', get_prop tab ''url'')])"

text \<open>\<open>data.choices[0]?.message?.content || ''\<close>: reading a property of \<open>null\<close> or
  \<open>undefined\<close> raises, \<open>?.\<close> does not.\<close>

fun first_element :: "jsval \<Rightarrow> jsval" where
  "first_element (JArr xs) = (case xs of [] \<Rightarrow> JUndefined | x # rest \<Rightarrow> x)"
| "first_element (JStr s) = (case s of [] \<Rightarrow> JUndefined | c # rest \<Rightarrow> JStr [c])"
| "first_element v = get_prop v ''0''"

definition optional_prop :: "jsval \<Rightarrow> string \<Rightarrow> jsval" where
  "optional_prop v k = (if v = JNull \<or> v = JUndefined then JUndefined else get_prop v k)"

definition response_content :: "jsval \<Rightarrow> error + jsval" where
  "response_content data =
     (if data = JNull \<or> data = JUndefined
      then Inl (TypeError ''Cannot read properties of null or undefined (reading choices)'')
      else if get_prop data ''choices'' = JNull \<or> get_prop data ''choices'' = JUndefined
      then Inl (TypeError ''Cannot read properties of null or undefined (reading 0)'')
      else
        (let c = optional_prop (optional_prop (first_element (get_prop data ''choices''))
                                  ''message'') ''content''
         in Inr (if truthy c then c else JStr [])))"

text \<open>The inner \<open>try\<close> block: an \<open>Inl\<close> is an exception that reaches its \<open>catch\<close>.\<close>

definition parse_and_validate :: "js_host \<Rightarrow> jsval \<Rightarrow> jsval \<Rightarrow> error + AIResponse list" where
  "parse_and_validate h content input =
     (case content of
        JStr s \<Rightarrow>
          (case JSON_parse h (repair s) of
             None \<Rightarrow> Inl (Error ''SyntaxError'')
           | Some groupedTabs \<Rightarrow> validateAndFormatResponse h groupedTabs input)
      | _ \<Rightarrow> Inl (TypeError ''content.trim is not a function''))"

text \<open>The inner \<open>catch\<close> block: \<open>content.substring\<close> raises unless the content is a
  string; otherwise the fallback grouping is the result.\<close>

definition parse_failed :: "js_host \<Rightarrow> jsval \<Rightarrow> jsval \<Rightarrow> error + AIResponse list" where
  "parse_failed h content input =
     (case content of
        JStr s \<Rightarrow> createFallbackGrouping h input
      | _ \<Rightarrow> Inl (TypeError ''content.substring is not a function''))"

text \<open>The outer \<open>try\<close> block from the \<open>fetch\<close> on: an \<open>Inl\<close> is an exception that reaches
  the outer \<open>catch\<close>.\<close>

definition request_and_parse ::
  "js_host \<Rightarrow> request \<Rightarrow> jsval \<Rightarrow> error + AIResponse list" where
  "request_and_parse h req input =
     (case fetch h req of
        Inl m \<Rightarrow> Inl (TypeError m)
      | Inr response \<Rightarrow>
          if \<not> ok response then
            (case body_text response of
               None \<Rightarrow> Inl (Error ''response.text() rejected'')
             | Some errorText \<Rightarrow> Inl (Error (''OpenAI API error: '' @ errorText)))
          else
            (case body_json response of
               None \<Rightarrow> Inl (Error ''response.json() rejected'')
             | Some data \<Rightarrow>
                 (case response_content data of
                    Inl e \<Rightarrow> Inl e
                  | Inr content \<Rightarrow>
                      if \<not> truthy content then createFallbackGrouping h input
                      else (case parse_and_validate h content input of
                              Inr result \<Rightarrow> Inr result
                            | Inl parseError \<Rightarrow> parse_failed h content input))))"

definition openai_url :: string where
  "openai_url = ''https://api.openai.com/v1/chat/completions''"

definition no_key_message :: string where
  "no_key_message =
     ''OpenAI API key not found. Please set your API key in the extension options.''"

text \<open>\<open>analyzeTabs\<close>: the outcome, the storage area afterwards and the HTTP requests
  made, in order.\<close>

definition analyzeTabs ::
  "js_host \<Rightarrow> jsval \<Rightarrow> area \<Rightarrow> (error + AIResponse list) \<times> area \<times> request list" where
  "analyzeTabs h input a =
     (case input of
        JArr ts \<Rightarrow>
          (case getApiKey a of
             (Inl e, a1) \<Rightarrow> (Inl e, a1, [])
           | (Inr apiKey, a1) \<Rightarrow>
               if \<not> truthy apiKey then (Inl (Error no_key_message), a1, [])
               else
                 (let req = \<lparr>endpoint = openai_url, bearer = apiKey, mappedTabs = map map_tab ts\<rparr>
                  in (case request_and_parse h req input of
                        Inr result \<Rightarrow> (Inr result, a1, [req])
                      | Inl e \<Rightarrow> (createFallbackGrouping h input, a1, [req]))))
      | _ \<Rightarrow> (createFallbackGrouping h (JArr []), a, []))"

section \<open>TabGrouper\<close>

text \<open>
  The tab and tab-group APIs belong to the browser.  Every call the grouper makes is
  recorded, oldest first, and the browser's answer to a call may depend on everything
  that was called before it: each host function receives that history.  A call can
  fail (a rejected promise).  The grouper asks for the tabs through \<open>window.browser\<close>
  when that exists and through \<open>chrome\<close> otherwise; both are the browser's one tab
  query.  What the grouper writes to its log is not modelled, so a call that fails and
  is caught leaves no other trace than the call itself.
\<close>

datatype call =
    TabsQuery
  | TabGroupsQuery
  | TabsUngroup "int list"
  | TabsGroup "int list"
  | TabGroupsUpdate int string string
  | Delay nat

record browser_tab =
  tab_id :: "int option"
  groupId :: int

record browser_group =
  group_id :: int
  group_title :: string

record tabs_host =
  tabs_group_api :: bool
  tabGroups_api :: bool
  tabGroups_query_api :: bool
  tabGroups_update_api :: bool
  tabs_query :: "call list \<Rightarrow> error + browser_tab list"
  tabGroups_query :: "call list \<Rightarrow> error + browser_group list"
  tabs_ungroup :: "call list \<Rightarrow> int list \<Rightarrow> error option"
  tabs_group :: "call list \<Rightarrow> int list \<Rightarrow> error + int"
  group_update :: "call list \<Rightarrow> int \<Rightarrow> string \<Rightarrow> string \<Rightarrow> error option"

record grouper =
  tabGroups :: "(string \<times> jsval) list"
  calls :: "call list"
  store :: area

text \<open>\<open>Map.prototype.set\<close>: a present key keeps its place.\<close>

definition map_set :: "string \<Rightarrow> 'a \<Rightarrow> (string \<times> 'a) list \<Rightarrow> (string \<times> 'a) list" where
  "map_set k v m =
     (if k \<in> fst ` set m then map (\<lambda>(k', v'). if k' = k then (k', v) else (k', v')) m
      else m @ [(k, v)])"

definition getGroupColor :: "string \<Rightarrow> string" where
  "getGroupColor groupName =
     [''blue'', ''red'', ''yellow'', ''green'', ''pink'', ''purple'', ''cyan'', ''grey'']
       ! (length groupName mod 8)"

text \<open>\<open>tabsInGroup.map(tab => tab.id).filter(id => id !== undefined)\<close> over
  \<open>allTabs.filter(tab => tab.groupId === group.id)\<close>.\<close>

definition ids_in_group :: "browser_tab list \<Rightarrow> browser_group \<Rightarrow> int list" where
  "ids_in_group allTabs g =
     List.map_filter tab_id (filter (\<lambda>t. groupId t = group_id g) allTabs)"

text \<open>The \<open>for\<close> loop of \<open>ungroupAllTabs\<close>; a failed \<open>tabs.ungroup\<close> is caught inside the
  loop body.\<close>

fun ungroup_each :: "tabs_host \<Rightarrow> browser_tab list \<Rightarrow> browser_group list \<Rightarrow> call list \<Rightarrow> call list" where
  "ungroup_each b allTabs [] cs = cs"
| "ungroup_each b allTabs (g # rest) cs =
     (let tabIds = ids_in_group allTabs g
      in if tabIds \<noteq> []
         then (case tabs_ungroup b cs tabIds of
                 None \<Rightarrow> ungroup_each b allTabs rest (cs @ [TabsUngroup tabIds])
               | Some e \<Rightarrow> ungroup_each b allTabs rest (cs @ [TabsUngroup tabIds]))
         else ungroup_each b allTabs rest cs)"

text \<open>\<open>ungroupAllTabs\<close> never throws: its own \<open>catch\<close> swallows a failed query.\<close>

definition ungroupAllTabs :: "tabs_host \<Rightarrow> browser_tab list \<Rightarrow> call list \<Rightarrow> call list" where
  "ungroupAllTabs b allTabs cs =
     (if \<not> tabGroups_api b then cs
      else if tabGroups_query_api b then
        (case tabGroups_query b cs of
           Inl e \<Rightarrow> cs @ [TabGroupsQuery]
         | Inr existingGroups \<Rightarrow>
             if existingGroups = [] then cs @ [TabGroupsQuery]
             else ungroup_each b allTabs existingGroups (cs @ [TabGroupsQuery]))
      else cs)"

text \<open>\<open>tabs.map(tab => tab && tab.id).filter(id => ... typeof id === 'number')\<close>: a
  falsy entry stands for itself, so the number \<open>0\<close> in place of a tab counts as an id.\<close>

definition number_id :: "jsval \<Rightarrow> int option" where
  "number_id tab =
     (case (if truthy tab then get_prop tab ''id'' else tab) of
        JNum n \<Rightarrow> Some n
      | _ \<Rightarrow> None)"

definition valid_entry :: "string \<times> jsval \<Rightarrow> bool" where
  "valid_entry e = (fst e \<noteq> [] \<and> is_array (snd e))"

text \<open>The loop of step 2; a failed \<open>tabs.group\<close> or \<open>tabGroups.update\<close> is caught inside
  the loop body.\<close>

fun create_each :: "tabs_host \<Rightarrow> (string \<times> jsval) list \<Rightarrow> call list \<Rightarrow> call list" where
  "create_each b [] cs = cs"
| "create_each b ((groupName, ts) # rest) cs =
     (if \<not> valid_entry (groupName, ts) then create_each b rest cs
      else
        (let tabIds = List.map_filter number_id (array_or_empty ts)
         in if tabIds \<noteq> [] then
              (case tabs_group b cs tabIds of
                 Inl e \<Rightarrow> create_each b rest (cs @ [TabsGroup tabIds])
               | Inr newGroupId \<Rightarrow>
                   if tabGroups_api b \<and> tabGroups_update_api b then
                     (case group_update b (cs @ [TabsGroup tabIds]) newGroupId groupName
                             (getGroupColor groupName) of
                        None \<Rightarrow>
                          create_each b rest
                            (cs @ [TabsGroup tabIds,
                                   TabGroupsUpdate newGroupId groupName (getGroupColor groupName)])
                      | Some e \<Rightarrow>
                          create_each b rest
                            (cs @ [TabsGroup tabIds,
                                   TabGroupsUpdate newGroupId groupName (getGroupColor groupName)]))
                   else create_each b rest (cs @ [TabsGroup tabIds]))
            else create_each b rest cs))"

text \<open>\<open>saveGroupedTabs\<close>: the map becomes a plain object (assigning to \<open>__proto__\<close>
  creates no own property, and the object lists its properties as \<open>Object.entries\<close>
  does); a failed write is logged, and the timestamp is written only after the groups
  were.\<close>

definition saveGroupedTabs :: "int \<Rightarrow> grouper \<Rightarrow> grouper" where
  "saveGroupedTabs now g =
     (let groupsObject =
            JObj (object_entries (filter (\<lambda>(k, v). k \<noteq> ''__proto__'') (tabGroups g)))
      in case saveSetting ''groupedTabs'' groupsObject (store g) of
           (Inl e, a1) \<Rightarrow> g\<lparr>store := a1\<rparr>
         | (Inr u, a1) \<Rightarrow>
             g\<lparr>store := snd (saveSetting ''groupedTabsTimestamp'' (JNum now) a1)\<rparr>)"

text \<open>
  \<open>createTabGroups\<close>.  The argument is \<open>None\<close> when it is not a \<open>Map\<close>; a \<open>Map\<close> is the
  list of its entries in iteration order.  \<open>now\<close> is the clock read by \<open>Date.now()\<close>.
\<close>

definition createTabGroups ::
  "tabs_host \<Rightarrow> int \<Rightarrow> (string \<times> jsval) list option \<Rightarrow> grouper \<Rightarrow> grouper" where
  "createTabGroups b now groupedTabs g0 =
     (let g = g0\<lparr>tabGroups := []\<rparr> in
      case groupedTabs of
        None \<Rightarrow> g
      | Some entries \<Rightarrow>
          (let g1 = g\<lparr>tabGroups := fold (\<lambda>(k, v) m. map_set k v m) (filter valid_entry entries) []\<rparr>
           in if tabs_group_api b then
                (case tabs_query b (calls g1) of
                   Inl e \<Rightarrow> g1\<lparr>calls := calls g1 @ [TabsQuery]\<rparr>
                 | Inr allTabs \<Rightarrow>
                     (let cs1 = ungroupAllTabs b allTabs (calls g1 @ [TabsQuery]);
                          cs2 = create_each b entries (cs1 @ [Delay 200])
                      in saveGroupedTabs now (g1\<lparr>calls := cs2\<rparr>)))
              else saveGroupedTabs now g1))"

section \<open>Definitions used in the statements\<close>

subsection \<open>Storage\<close>

text \<open>An environment with no WebExtensions API at all; an API object offers a usable
  area when it has a storage member with a local or a sync area.\<close>

definition no_runtime :: environment where
  "no_runtime = \<lparr>global_chrome = None, window_browser = None, window_chrome = None\<rparr>"

definition usable_area :: "api_object option \<Rightarrow> bool" where
  "usable_area api =
     (case api of
        None \<Rightarrow> False
      | Some a \<Rightarrow> (case storage a of None \<Rightarrow> False | Some st \<Rightarrow> local_area st \<or> sync_area st))"

text \<open>The next call on the area is not scripted to go wrong.\<close>

definition next_call_ok :: "area \<Rightarrow> bool" where
  "next_call_ok a = (case script a of [] \<Rightarrow> True | f # fs \<Rightarrow> f = None)"

text \<open>Sample areas: empty; empty with a failure on the second call; holding one value
  under the key of the API key.\<close>

definition empty_area :: area where
  "empty_area = \<lparr>items = Map.empty, script = []\<rparr>"

definition failing_read_area :: area where
  "failing_read_area = \<lparr>items = Map.empty, script = [None, Some (LastError ''read failed'')]\<rparr>"

text \<open>The form \<open>getApiKey\<close> accepts: a string that starts with \<open>sk-\<close> and is longer than 20.\<close>

definition well_formed_key :: "jsval \<Rightarrow> bool" where
  "well_formed_key v = (case v of JStr s \<Rightarrow> startsWith s ''sk-'' \<and> length s > 20 | _ \<Rightarrow> False)"

definition nonempty_string :: "jsval \<Rightarrow> bool" where
  "nonempty_string v = (case v of JStr s \<Rightarrow> s \<noteq> [] | _ \<Rightarrow> False)"

definition area_with :: "jsval \<Rightarrow> area" where
  "area_with v = \<lparr>items = [''openai_api_key'' \<mapsto> v], script = []\<rparr>"

text \<open>The same area with faults scripted for the coming calls.\<close>

definition area_scripted :: "jsval \<Rightarrow> fault option list \<Rightarrow> area" where
  "area_scripted v faults = \<lparr>items = [''openai_api_key'' \<mapsto> v], script = faults\<rparr>"

subsection \<open>The AI service\<close>

text \<open>A JavaScript host for the examples: the network is down, and the URL parser is
  given on the urls used (it answers as the WHATWG parser does on them).\<close>

definition sample_host :: js_host where
  "sample_host =
     \<lparr>fetch = (\<lambda>r. Inl ''Failed to fetch''),
      JSON_parse = (\<lambda>s. None),
      URL_hostname = (\<lambda>u. if u = ''http://constructor/'' then Some ''constructor''
                           else if u = ''https://example.org/a'' then Some ''example.org''
                           else if u = ''app://7/x'' then Some ''7''
                           else None)\<rparr>"

definition mk_tab :: "int \<Rightarrow> string \<Rightarrow> string \<Rightarrow> jsval" where
  "mk_tab i t u = JObj [(''id'', JNum i), (''title'', JStr t), (''url'', JStr u)]"



text \<open>A host whose AI endpoint answers with one chat completion holding \<open>content\<close>, and
  whose \<open>JSON.parse\<close> is given on the one string it will be asked about.\<close>

definition completion :: "string \<Rightarrow> jsval" where
  "completion content =
     JObj [(''choices'', JArr [JObj [(''message'', JObj [(''content'', JStr content)])]])]"

definition reply_host :: "string \<Rightarrow> string \<Rightarrow> jsval \<Rightarrow> js_host" where
  "reply_host content text parsed =
     \<lparr>fetch = (\<lambda>r. Inr \<lparr>ok = True, status = 200, body_text = Some [],
                           body_json = Some (completion content)\<rparr>),
      JSON_parse = (\<lambda>s. if s = text then Some parsed else None),
      URL_hostname = (\<lambda>u. None)\<rparr>"

text \<open>A well-formed key, a reply wrapped in prose with trailing commas, bare keys and
  single quotes, the same reply repaired, and its parse.\<close>

definition sample_key :: jsval where
  "sample_key = JStr ''sk-0123456789abcdefghij''"

definition sample_reply :: string where
  "sample_reply = ''Sure! {groups: [{subject: 'Work', tabs: [],},], } Done.''"

definition sample_repaired :: string where
  "sample_repaired =
     [CHR ''{'', CHR 0x22] @ ''groups'' @ [CHR 0x22] @ '': [{'' @ [CHR 0x22] @ ''subject''
     @ [CHR 0x22] @ '': '' @ [CHR 0x22] @ ''Work'' @ [CHR 0x22] @ '', '' @ [CHR 0x22]
     @ ''tabs'' @ [CHR 0x22] @ '': []}] }''"

definition sample_parsed :: jsval where
  "sample_parsed =
     JObj [(''groups'', JArr [JObj [(''subject'', JStr ''Work''), (''tabs'', JArr [])]])]"

text \<open>
  Two replies that no repair turns into JSON: one wrapped in prose and white space, with
  bare keys, single quotes and trailing commas, whose array lacks a comma; one that is
  plain prose.  Beside each, the string the repair makes of it.
\<close>

definition broken_reply :: string where
  "broken_reply =
     ''  Here you go: {groups: [{subject: 'Work', tabs: [1 2],},], } Done.  ''"

definition broken_repaired :: string where
  "broken_repaired =
     [CHR ''{'', CHR 0x22] @ ''groups'' @ [CHR 0x22] @ '': [{'' @ [CHR 0x22] @ ''subject''
     @ [CHR 0x22] @ '': '' @ [CHR 0x22] @ ''Work'' @ [CHR 0x22] @ '', '' @ [CHR 0x22]
     @ ''tabs'' @ [CHR 0x22] @ '': [1 2]}] }''"

definition prose_reply :: string where
  "prose_reply = ''  I cannot group these tabs.  ''"

definition prose_repaired :: string where
  "prose_repaired = ''I cannot group these tabs.''"

text \<open>
  A host whose AI endpoint answers with one chat completion holding \<open>content\<close> and whose
  \<open>JSON.parse\<close> throws on \<open>text\<close>.  Any other string it would parse into an empty
  grouping, so the outcome of \<open>analyzeTabs\<close> tells which string was parsed.  Its URL
  parser is that of \<open>sample_host\<close>.
\<close>

definition rejecting_host :: "string \<Rightarrow> string \<Rightarrow> js_host" where
  "rejecting_host content text =
     \<lparr>fetch = (\<lambda>r. Inr \<lparr>ok = True, status = 200, body_text = Some [],
                           body_json = Some (completion content)\<rparr>),
      JSON_parse = (\<lambda>s. if s = text then None else Some (JObj [(''groups'', JArr [])])),
      URL_hostname = URL_hostname sample_host\<rparr>"

text \<open>The tabs \<open>createFallbackGrouping\<close> does not skip.\<close>

definition groupable :: "jsval \<Rightarrow> bool" where
  "groupable tab =
     (truthy tab \<and> typeof_object tab \<and> truthy (get_prop tab ''url'')
      \<and> truthy (get_prop tab ''title''))"

text \<open>What the loop of \<open>createFallbackGrouping\<close> keeps true of its dictionary: no name
  twice, no empty array, every tab under its own category.\<close>

definition well_grouped :: "js_host \<Rightarrow> (string \<times> jsval list) list \<Rightarrow> bool" where
  "well_grouped h gs =
     (distinct (map fst gs)
      \<and> (\<forall>(k, v) \<in> set gs. v \<noteq> [] \<and> (\<forall>t \<in> set v. groupable t \<and> categorizeTab h t = Inr k)))"

text \<open>A tab whose url has the host name \<open>constructor\<close>.\<close>

definition constructor_tab :: jsval where
  "constructor_tab = mk_tab 1 ''Intranet'' ''http://constructor/''"

subsection \<open>The tab grouper\<close>

fun is_group_call :: "call \<Rightarrow> bool" where
  "is_group_call (TabsGroup ids) = True"
| "is_group_call c = False"

fun is_ungroup_call :: "call \<Rightarrow> bool" where
  "is_ungroup_call (TabsUngroup ids) = True"
| "is_ungroup_call c = False"

text \<open>The ids step 2 collects for one entry of the map.\<close>

definition entry_ids :: "string \<times> jsval \<Rightarrow> int list" where
  "entry_ids e = List.map_filter number_id (array_or_empty (snd e))"

text \<open>The \<open>tabs.group\<close> calls an invocation owes to its argument, and the \<open>tabs.ungroup\<close>
  calls it owes to the groups and tabs the browser reported.\<close>

definition expected_group_calls :: "(string \<times> jsval) list \<Rightarrow> call list" where
  "expected_group_calls entries =
     map TabsGroup (filter (\<lambda>ids. ids \<noteq> []) (map entry_ids (filter valid_entry entries)))"

definition expected_ungroup_calls :: "browser_tab list \<Rightarrow> browser_group list \<Rightarrow> call list" where
  "expected_ungroup_calls allTabs existingGroups =
     map TabsUngroup (filter (\<lambda>ids. ids \<noteq> []) (map (ids_in_group allTabs) existingGroups))"

text \<open>A browser on which every call after the two queries fails, and a fresh grouper.\<close>

definition sample_tabs :: "browser_tab list" where
  "sample_tabs =
     [\<lparr>tab_id = Some 1, groupId = 7\<rparr>, \<lparr>tab_id = Some 2, groupId = 7\<rparr>,
      \<lparr>tab_id = Some 3, groupId = 8\<rparr>, \<lparr>tab_id = None, groupId = 8\<rparr>,
      \<lparr>tab_id = Some 4, groupId = -1\<rparr>]"

definition sample_groups :: "browser_group list" where
  "sample_groups =
     [\<lparr>group_id = 7, group_title = ''Old''\<rparr>, \<lparr>group_id = 8, group_title = []\<rparr>,
      \<lparr>group_id = 9, group_title = ''Elsewhere''\<rparr>]"

definition failing_browser :: tabs_host where
  "failing_browser =
     \<lparr>tabs_group_api = True, tabGroups_api = True, tabGroups_query_api = True,
      tabGroups_update_api = True,
      tabs_query = (\<lambda>cs. Inr sample_tabs),
      tabGroups_query = (\<lambda>cs. Inr sample_groups),
      tabs_ungroup = (\<lambda>cs ids. Some (Error ''No tab with that id'')),
      tabs_group = (\<lambda>cs ids. Inl (Error ''Tabs cannot be edited right now'')),
      group_update = (\<lambda>cs i t c. Some (Error ''No group with that id''))\<rparr>"

definition new_grouper :: grouper where
  "new_grouper = \<lparr>tabGroups = [], calls = [], store = empty_area\<rparr>"

definition sample_entries :: "(string \<times> jsval) list" where
  "sample_entries =
     [(''Work'', JArr [mk_tab 1 ''a'' ''u'', mk_tab 2 ''b'' ''v'']),
      ([], JArr [mk_tab 4 ''d'' ''x'']),
      (''Empty'', JArr [JNull]),
      (''Play'', JArr [mk_tab 3 ''c'' ''w''])]"

section \<open>Host dependence of the storage service\<close>

lemma usable_area_has_storage: "\<not> has_storage api \<Longrightarrow> \<not> usable_area api"
  by (simp add: has_storage_def usable_area_def split: option.splits)

text \<open>
  C8.  Constructing a StorageService throws when no browser storage API is available:
  when none of \<open>chrome\<close>, \<open>window.browser\<close> and \<open>window.chrome\<close> offers a storage member
  with a local or a sync area, the constructor returns no service but an error.
\<close>

theorem constructor_throws_without_storage:
  assumes "\<not> usable_area (global_chrome env)"
    and "\<not> usable_area (window_browser env)"
    and "\<not> usable_area (window_chrome env)"
  shows "\<exists>msg. StorageService_constructor env = Inl (Error msg)"
proof (cases "browserAPI env")
  case None
  then show ?thesis by (simp add: StorageService_constructor_def)
next
  case (Some api)
  then have "\<not> usable_area (Some api)"
    using assms by (auto simp: browserAPI_def split: if_splits)
  then show ?thesis
    using Some
    by (auto simp: StorageService_constructor_def usable_area_def split: option.splits)
qed

theorem constructor_throws_without_storage_witness:
  "\<not> usable_area (global_chrome no_runtime)
   \<and> (\<exists>msg. StorageService_constructor no_runtime = Inl (Error msg))"
  using constructor_throws_without_storage [of no_runtime]
  by (simp add: no_runtime_def usable_area_def)

section \<open>The settings store\<close>

lemma serialise_json_value: "json_value v \<Longrightarrow> serialise v = Some v"
proof (induction v)
  case (JArr xs)
  then have "map (\<lambda>x. case serialise x of None \<Rightarrow> JNull | Some y \<Rightarrow> y) xs = xs"
    by (induction xs) auto
  then show ?case by simp
next
  case (JObj fs)
  then have "concat (map (\<lambda>(k, w). case serialise w of None \<Rightarrow> [] | Some y \<Rightarrow> [(k, y)]) fs) = fs"
    by (induction fs) fastforce+
  then show ?case by simp
qed simp_all

lemma json_value_defined: "json_value v \<Longrightarrow> v \<noteq> JUndefined"
  by auto

lemma saveSetting_items:
  "saveSetting k v a = (Inr (), a1) \<Longrightarrow> json_value v \<Longrightarrow> items a1 k = Some v"
  by (auto simp: saveSetting_def area_set_def next_fault_def serialise_json_value
           split: list.splits option.splits fault.splits prod.splits)

lemma saveSetting_other:
  "k' \<noteq> k \<Longrightarrow> items (snd (saveSetting k v a)) k' = items a k'"
  by (auto simp: saveSetting_def area_set_def next_fault_def
           split: list.splits option.splits fault.splits prod.splits)

lemma removeSetting_items:
  "removeSetting k a = (Inr (), a2) \<Longrightarrow> items a2 k = None"
  by (auto simp: removeSetting_def area_remove_def next_fault_def
           split: list.splits option.splits fault.splits prod.splits)

lemma getSetting_stored:
  "next_call_ok a \<Longrightarrow> items a k = Some v \<Longrightarrow> v \<noteq> JUndefined \<Longrightarrow> fst (getSetting k a) = v"
  by (auto simp: getSetting_def area_get_def next_fault_def next_call_ok_def own_or_inherited_def
           split: list.splits option.splits fault.splits)

lemma getSetting_absent:
  "items a k = None \<Longrightarrow> k \<notin> set object_prototype_keys \<Longrightarrow> fst (getSetting k a) = JNull"
  by (auto simp: getSetting_def area_get_def next_fault_def own_or_inherited_def Let_def
           split: list.splits option.splits fault.splits)

text \<open>
  C5, as amended.  For a value \<open>v\<close> that survives serialisation, after \<open>saveSetting k v\<close>
  has succeeded a \<open>getSetting k\<close> whose read is not faulted returns \<open>v\<close>; for a key that
  is not a name inherited from \<open>Object.prototype\<close>, after \<open>removeSetting k\<close> has
  succeeded \<open>getSetting k\<close> returns \<open>null\<close>; and \<open>saveSetting k v\<close> leaves the value stored
  under any other key as it was.
\<close>

theorem settings_store:
  "(saveSetting k v a = (Inr (), a1) \<and> json_value v \<and> next_call_ok a1
      \<longrightarrow> fst (getSetting k a1) = v)
   \<and> (removeSetting k a = (Inr (), a2) \<and> k \<notin> set object_prototype_keys
      \<longrightarrow> fst (getSetting k a2) = JNull)
   \<and> (k' \<noteq> k \<longrightarrow> items (snd (saveSetting k v a)) k' = items a k')"
  using saveSetting_items [of k v a a1] getSetting_stored [of a1 k v]
    removeSetting_items [of k a a2] getSetting_absent [of a2 k]
    saveSetting_other [of k' k v a] json_value_defined [of v]
  by blast

text \<open>The round trip of \<open>testStorage\<close>, and a second key that a save leaves alone.\<close>

theorem settings_store_witness:
  "fst (getSetting ''storage_test'' (snd (saveSetting ''storage_test'' (JStr ''test_value_1'') empty_area)))
     = JStr ''test_value_1''
   \<and> fst (getSetting ''storage_test'' (snd (removeSetting ''storage_test''
        (snd (saveSetting ''storage_test'' (JStr ''test_value_1'') empty_area))))) = JNull
   \<and> items (snd (saveSetting ''storage_test'' (JStr ''test_value_1'')
        (snd (saveSetting ''options'' (JBool True) empty_area)))) ''options'' = Some (JBool True)"
proof -
  let ?a = "snd (saveSetting ''options'' (JBool True) empty_area)"
  let ?a1 = "snd (saveSetting ''storage_test'' (JStr ''test_value_1'') empty_area)"
  have s: "saveSetting ''storage_test'' (JStr ''test_value_1'') empty_area = (Inr (), ?a1)"
    by (simp add: saveSetting_def area_set_def next_fault_def empty_area_def)
  have ok: "next_call_ok ?a1"
    by (simp add: saveSetting_def area_set_def next_fault_def empty_area_def next_call_ok_def)
  have r: "removeSetting ''storage_test'' ?a1 = (Inr (), snd (removeSetting ''storage_test'' ?a1))"
    by (simp add: removeSetting_def area_remove_def saveSetting_def area_set_def next_fault_def
        empty_area_def)
  have k: "''storage_test'' \<notin> set object_prototype_keys"
    by (simp add: object_prototype_keys_def)
  have o: "items ?a ''options'' = Some (JBool True)"
    by (simp add: saveSetting_def area_set_def next_fault_def empty_area_def)
  have "fst (getSetting ''storage_test'' ?a1) = JStr ''test_value_1''"
    using settings_store [of "''storage_test''" "JStr ''test_value_1''" empty_area ?a1] s ok
    by simp
  moreover have "fst (getSetting ''storage_test'' (snd (removeSetting ''storage_test'' ?a1))) = JNull"
    using settings_store [of "''storage_test''" _ ?a1 _ "snd (removeSetting ''storage_test'' ?a1)"] r k
    by blast
  moreover have "items (snd (saveSetting ''storage_test'' (JStr ''test_value_1'') ?a)) ''options''
      = Some (JBool True)"
    using settings_store [of "''storage_test''" "JStr ''test_value_1''" ?a _ _ "''options''"] o
    by simp
  ultimately show ?thesis by blast
qed

text \<open>
  C5 as stated fails: saving \<open>undefined\<close> succeeds and \<open>getSetting\<close> then returns \<open>null\<close>,
  not \<open>undefined\<close>; a save that succeeded followed by a read that fails returns \<open>null\<close>,
  not the value saved; and after the key \<open>constructor\<close> has been removed \<open>getSetting\<close>
  returns what the result object inherits under that name, not \<open>null\<close>.
\<close>

theorem settings_store_counterexample:
  "fst (saveSetting ''k'' JUndefined empty_area) = Inr ()
   \<and> fst (getSetting ''k'' (snd (saveSetting ''k'' JUndefined empty_area))) = JNull
   \<and> fst (saveSetting ''k'' (JNum 1) failing_read_area) = Inr ()
   \<and> fst (getSetting ''k'' (snd (saveSetting ''k'' (JNum 1) failing_read_area))) = JNull
   \<and> fst (removeSetting ''constructor'' empty_area) = Inr ()
   \<and> fst (getSetting ''constructor'' (snd (removeSetting ''constructor'' empty_area)))
       = JBuiltin ''constructor''"
  by (simp add: saveSetting_def getSetting_def removeSetting_def area_set_def area_get_def
      area_remove_def next_fault_def empty_area_def failing_read_area_def own_or_inherited_def
      object_prototype_keys_def)

section \<open>The API key\<close>

lemma getApiKey_cases:
  assumes "storage_get ''openai_api_key'' a = (x, a1)"
  shows "getApiKey a =
     (if nonempty_string x then
        if well_formed_key x then (Inr x, a1)
        else (case removeSetting ''openai_api_key'' a1 of
                (Inl e, a2) \<Rightarrow> (Inl e, a2)
              | (Inr u, a2) \<Rightarrow> (Inr JNull, a2))
      else (Inr x, a1))"
  using assms
  by (cases x) (auto simp: getApiKey_def nonempty_string_def well_formed_key_def)

lemma storage_get_api_key:
  assumes "storage_get ''openai_api_key'' a = (x, a1)"
  shows "items a1 = items a"
    and "next_call_ok a \<Longrightarrow>
           x = (case items a ''openai_api_key'' of
                  Some v \<Rightarrow> if v = JUndefined then JNull else v
                | None \<Rightarrow> JNull)"
    and "\<not> next_call_ok a \<Longrightarrow> x = JNull"
  using assms
  by (auto simp: storage_get_def getSetting_def area_get_def next_fault_def next_call_ok_def
                 own_or_inherited_def object_prototype_keys_def Let_def
           split: list.splits option.splits fault.splits)

lemma removeSetting_failed:
  "removeSetting k a = (Inl e, a2) \<Longrightarrow> items a2 = items a"
  by (auto simp: removeSetting_def area_remove_def next_fault_def
           split: list.splits option.splits fault.splits prod.splits)

text \<open>
  C9, as amended.  What \<open>getApiKey\<close> returns is \<open>null\<close>, or a string that starts with
  \<open>sk-\<close> and is longer than 20, or the stored value itself when that is the empty string
  or not a string.  When the read of the key does not fail and the value stored is a
  non-empty string not of that form, \<open>getApiKey\<close> removes the key and returns \<open>null\<close>, or,
  when the removal fails, throws the error of the removal and leaves the storage as it
  was.  When the read fails, \<open>getApiKey\<close> returns \<open>null\<close> and removes nothing.  It throws
  in no other case.
\<close>

theorem getApiKey_result:
  assumes "getApiKey a = (r, a2)"
  shows "(\<forall>v. r = Inr v \<longrightarrow>
            v = JNull \<or> well_formed_key v
            \<or> (items a ''openai_api_key'' = Some v \<and> \<not> nonempty_string v))
       \<and> (\<forall>x. next_call_ok a \<and> items a ''openai_api_key'' = Some x
              \<and> nonempty_string x \<and> \<not> well_formed_key x \<longrightarrow>
            (r = Inr JNull \<and> items a2 ''openai_api_key'' = None)
            \<or> (\<exists>e. r = Inl e \<and> items a2 = items a
                  \<and> removeSetting ''openai_api_key'' (snd (storage_get ''openai_api_key'' a))
                      = (Inl e, a2)))
       \<and> (\<not> next_call_ok a \<longrightarrow> r = Inr JNull \<and> items a2 = items a)
       \<and> (\<forall>e. r = Inl e \<longrightarrow>
            next_call_ok a
            \<and> (\<exists>x. items a ''openai_api_key'' = Some x \<and> nonempty_string x
                   \<and> \<not> well_formed_key x))"
proof -
  obtain x a1 where g: "storage_get ''openai_api_key'' a = (x, a1)"
    by (cases "storage_get ''openai_api_key'' a")
  note c = getApiKey_cases [OF g]
  note s = storage_get_api_key [OF g]
  have null: "\<not> nonempty_string JNull"
    by (simp add: nonempty_string_def)
  have stored: "items a ''openai_api_key'' = Some x" if "x \<noteq> JNull"
    using that s(2,3) by (cases "next_call_ok a") (auto split: option.splits if_splits)
  show ?thesis
  proof (cases "nonempty_string x \<and> \<not> well_formed_key x")
    case True
    then have xn: "x \<noteq> JNull" using null by auto
    then have ok: "next_call_ok a" using s(3) by blast
    obtain q a3 where rm: "removeSetting ''openai_api_key'' a1 = (q, a3)"
      by (cases "removeSetting ''openai_api_key'' a1")
    show ?thesis
    proof (cases q)
      case (Inl e)
      then have r: "r = Inl e" "a2 = a3"
        using c True rm assms by auto
      have "items a3 = items a"
        using removeSetting_failed rm Inl s(1) by metis
      then show ?thesis
        using r rm Inl g ok stored [OF xn] True by auto
    next
      case (Inr u)
      then have r: "r = Inr JNull" "a2 = a3"
        using c True rm assms by auto
      have "items a3 ''openai_api_key'' = None"
        using rm Inr removeSetting_items by auto
      then show ?thesis
        using r ok by auto
    qed
  next
    case False
    then have r: "r = Inr x" "a2 = a1"
      using c assms by (auto split: if_splits)
    have 1: "x = JNull \<or> well_formed_key x
        \<or> (items a ''openai_api_key'' = Some x \<and> \<not> nonempty_string x)"
      using False stored by blast
    have 2: "\<not> (next_call_ok a \<and> items a ''openai_api_key'' = Some y
               \<and> nonempty_string y \<and> \<not> well_formed_key y)" for y
    proof
      assume h: "next_call_ok a \<and> items a ''openai_api_key'' = Some y
               \<and> nonempty_string y \<and> \<not> well_formed_key y"
      then have "y \<noteq> JUndefined" by (auto simp: nonempty_string_def)
      then have "x = y" using s(2) h by simp
      then show False using False h by blast
    qed
    have 3: "\<not> next_call_ok a \<longrightarrow> r = Inr JNull \<and> items a2 = items a"
      using r s(1,3) by auto
    have 4: "\<forall>e. r \<noteq> Inl e"
      using r by simp
    have 5: "\<forall>v. r = Inr v \<longrightarrow>
            v = JNull \<or> well_formed_key v
            \<or> (items a ''openai_api_key'' = Some v \<and> \<not> nonempty_string v)"
      using r 1 by simp
    show ?thesis
      using 2 3 4 5 by blast
  qed
qed

theorem getApiKey_result_witness:
  "fst (getApiKey (area_with (JStr ''my-secret''))) = Inr JNull
   \<and> items (snd (getApiKey (area_with (JStr ''my-secret'')))) ''openai_api_key'' = None"
proof -
  let ?a = "area_with (JStr ''my-secret'')"
  have i: "next_call_ok ?a \<and> items ?a ''openai_api_key'' = Some (JStr ''my-secret'')"
    by (simp add: area_with_def next_call_ok_def)
  have n: "nonempty_string (JStr ''my-secret'') \<and> \<not> well_formed_key (JStr ''my-secret'')"
    by (simp add: nonempty_string_def well_formed_key_def)
  have f: "\<forall>e. fst (removeSetting ''openai_api_key''
                      (snd (storage_get ''openai_api_key'' ?a))) \<noteq> Inl e"
    by (simp add: removeSetting_def area_remove_def next_fault_def area_with_def
        storage_get_def getSetting_def area_get_def own_or_inherited_def Let_def)
  obtain r a2 where p: "getApiKey ?a = (r, a2)"
    by (cases "getApiKey ?a")
  from getApiKey_result [OF p] i n
  have "(r = Inr JNull \<and> items a2 ''openai_api_key'' = None)
      \<or> (\<exists>e. r = Inl e \<and> items a2 = items ?a
            \<and> removeSetting ''openai_api_key'' (snd (storage_get ''openai_api_key'' ?a))
                = (Inl e, a2))"
    by blast
  then have "r = Inr JNull \<and> items a2 ''openai_api_key'' = None"
    using f by (metis fst_conv)
  with p show ?thesis by simp
qed

text \<open>
  C9 as stated fails: with the empty string stored, \<open>getApiKey\<close> returns the empty
  string, which is neither \<open>null\<close> nor of the accepted form, and leaves it in storage;
  with the number 42 stored, it returns 42; with the malformed key \<open>bad\<close> stored and a
  read that fails, it returns \<open>null\<close> and the key stays; with \<open>bad\<close> stored and a removal
  that fails, it throws and the key stays.
\<close>

theorem getApiKey_counterexample:
  "fst (getApiKey (area_with (JStr []))) = Inr (JStr [])
   \<and> items (snd (getApiKey (area_with (JStr [])))) ''openai_api_key'' = Some (JStr [])
   \<and> fst (getApiKey (area_with (JNum 42))) = Inr (JNum 42)
   \<and> fst (getApiKey (area_scripted (JStr ''bad'') [Some (LastError ''read failed'')]))
       = Inr JNull
   \<and> items (snd (getApiKey (area_scripted (JStr ''bad'') [Some (LastError ''read failed'')])))
        ''openai_api_key'' = Some (JStr ''bad'')
   \<and> fst (getApiKey (area_scripted (JStr ''bad'') [None, Some (LastError ''remove failed'')]))
       = Inl (Error ''remove failed'')
   \<and> items (snd (getApiKey (area_scripted (JStr ''bad'')
                              [None, Some (LastError ''remove failed'')])))
        ''openai_api_key'' = Some (JStr ''bad'')"
  by (simp add: getApiKey_def storage_get_def getSetting_def area_get_def next_fault_def
      area_with_def area_scripted_def own_or_inherited_def removeSetting_def area_remove_def)

section \<open>Categories\<close>






section \<open>The fallback grouping\<close>

lemma push_tab_present:
  assumes "distinct (map fst gs)" and "(k, v) \<in> set gs"
  shows "mset (concat (map snd (map (\<lambda>(k', v'). if k' = k then (k', v' @ [t]) else (k', v')) gs)))
         = mset (concat (map snd gs)) + {#t#}"
  using assms
proof (induction gs)
  case Nil
  then show ?case by simp
next
  case (Cons p gs)
  obtain k' v' where p: "p = (k', v')" by (cases p)
  show ?case
  proof (cases "k' = k")
    case True
    then have "k \<notin> fst ` set gs"
      using Cons.prems(1) p by auto
    then have "map (\<lambda>(k', v'). if k' = k then (k', v' @ [t]) else (k', v')) gs = gs"
      by (induction gs) auto
    then show ?thesis using True p by simp
  next
    case False
    then have "(k, v) \<in> set gs"
      using Cons.prems(2) p by auto
    then show ?thesis
      using Cons.IH Cons.prems(1) False p by simp
  qed
qed

lemma push_tab_ok:
  assumes "well_grouped h gs" and "groupable t" and "categorizeTab h t = Inr k"
    and "k \<notin> set object_prototype_keys"
  shows "\<exists>gs'. push_tab gs k t = Inr gs' \<and> well_grouped h gs'
           \<and> mset (concat (map snd gs')) = mset (concat (map snd gs)) + {#t#}"
proof (cases "map_of gs k")
  case None
  then have "k \<notin> fst ` set gs"
    by (simp add: map_of_eq_None_iff)
  then have "well_grouped h (gs @ [(k, [t])])"
    using assms(1-3) by (auto simp: well_grouped_def)
  then show ?thesis
    using None assms(4) by (simp add: push_tab_def)
next
  case (Some v)
  let ?gs' = "map (\<lambda>(k', v'). if k' = k then (k', v' @ [t]) else (k', v')) gs"
  have d: "distinct (map fst gs)"
    using assms(1) by (simp add: well_grouped_def)
  have m: "(k, v) \<in> set gs"
    using Some by (rule map_of_SomeD)
  have f: "map fst ?gs' = map fst gs"
    by (induction gs) auto
  have e: "v' \<noteq> [] \<and> (\<forall>x \<in> set v'. groupable x \<and> categorizeTab h x = Inr k')"
    if "(k', v') \<in> set ?gs'" for k' v'
  proof -
    have "(k', v') \<in> (\<lambda>(a, b). if a = k then (a, b @ [t]) else (a, b)) ` set gs"
      using that by simp
    then obtain a b where ab: "(a, b) \<in> set gs"
        "(k', v') = (if a = k then (a, b @ [t]) else (a, b))"
      by (auto simp: image_iff case_prod_unfold)
    have "b \<noteq> [] \<and> (\<forall>x \<in> set b. groupable x \<and> categorizeTab h x = Inr a)"
      using assms(1) ab(1) by (auto simp: well_grouped_def)
    then show ?thesis
      using ab(2) assms(2,3) by (cases "a = k") auto
  qed
  have dd: "distinct (map fst ?gs')"
    by (metis d f)
  have "well_grouped h ?gs'"
    unfolding well_grouped_def
  proof (intro conjI ballI)
    show "distinct (map fst ?gs')"
      by (rule dd)
  next
    fix p
    assume p: "p \<in> set ?gs'"
    obtain k' v' where kv: "p = (k', v')"
      by (cases p)
    from e [of k' v'] p kv
    show "case p of (k, v) \<Rightarrow> v \<noteq> [] \<and> (\<forall>t \<in> set v. groupable t \<and> categorizeTab h t = Inr k)"
      by blast
  qed
  moreover have "push_tab gs k t = Inr ?gs'"
    using Some by (simp add: push_tab_def)
  ultimately show ?thesis
    using push_tab_present [OF d m] by simp
qed

lemma collect_groups_ok:
  assumes "well_grouped h gs"
    and "\<forall>t \<in> set ts. groupable t \<longrightarrow>
           (\<exists>k. categorizeTab h t = Inr k \<and> k \<notin> set object_prototype_keys)"
  shows "\<exists>gs'. collect_groups h gs ts = Inr gs' \<and> well_grouped h gs'
           \<and> mset (concat (map snd gs')) = mset (concat (map snd gs)) + mset (filter groupable ts)"
  using assms
proof (induction ts arbitrary: gs)
  case Nil
  then show ?case by simp
next
  case (Cons t ts)
  show ?case
  proof (cases "groupable t")
    case False
    then have "collect_groups h gs (t # ts) = collect_groups h gs ts"
      by (auto simp: groupable_def)
    then show ?thesis
      using Cons.IH [of gs] Cons.prems False by simp
  next
    case True
    then obtain k where k: "categorizeTab h t = Inr k" "k \<notin> set object_prototype_keys"
      using Cons.prems(2) by auto
    obtain gs1 where g1: "push_tab gs k t = Inr gs1" "well_grouped h gs1"
        "mset (concat (map snd gs1)) = mset (concat (map snd gs)) + {#t#}"
      using push_tab_ok [OF Cons.prems(1) True k] by blast
    have "collect_groups h gs (t # ts) = collect_groups h gs1 ts"
      using True k(1) g1(1) by (simp add: groupable_def)
    moreover obtain gs' where "collect_groups h gs1 ts = Inr gs'" "well_grouped h gs'"
        "mset (concat (map snd gs')) = mset (concat (map snd gs1)) + mset (filter groupable ts)"
      using Cons.IH [OF g1(2)] Cons.prems(2) by auto
    ultimately show ?thesis
      using g1(3) True by simp
  qed
qed

lemma mset_object_entries: "mset (object_entries ps) = mset ps"
  by (simp add: object_entries_def)

lemma mset_concat_snd:
  "mset xs = mset ys \<Longrightarrow> mset (concat (map snd xs)) = mset (concat (map snd ys))"
proof -
  assume a: "mset xs = mset ys"
  have c: "mset (concat (map snd zs)) = sum_mset (image_mset (\<lambda>p. mset (snd p)) (mset zs))"
    for zs :: "('a \<times> 'b list) list"
    by (induction zs) simp_all
  show ?thesis
    by (simp add: c a)
qed

text \<open>
  On every other input the fallback grouping is what C10 says: when no tab's category
  is a name inherited from \<open>Object.prototype\<close> (and titles and urls are strings, so
  that every tab has a category), the one AIResponse returned has groups with distinct
  subjects, none empty, every tab under the subject that is its category, and together
  they hold exactly the tabs that have a url and a title, each as often as the input
  has it.
\<close>

lemma createFallbackGrouping_partition:
  assumes "ts \<noteq> []"
    and "\<forall>t \<in> set ts. groupable t \<longrightarrow>
           (\<exists>k. categorizeTab h t = Inr k \<and> k \<notin> set object_prototype_keys)"
  shows "\<exists>gs sug. createFallbackGrouping h (JArr ts) = Inr [\<lparr>groups = gs, suggestions = sug\<rparr>]
     \<and> distinct (map subject gs)
     \<and> (\<forall>g \<in> set gs. tabs g \<noteq> []
           \<and> (\<forall>t \<in> set (tabs g). groupable t
                  \<and> (\<exists>k. categorizeTab h t = Inr k \<and> subject g = JStr k)))
     \<and> mset (concat (map tabs gs)) = mset (filter groupable ts)"
proof -
  have "well_grouped h []"
    by (simp add: well_grouped_def)
  from collect_groups_ok [OF this assms(2)] obtain gs' where
    c: "collect_groups h [] ts = Inr gs'" and w: "well_grouped h gs'"
    and m: "mset (concat (map snd gs')) = mset (filter groupable ts)"
    by auto
  let ?es = "object_entries gs'"
  let ?gs = "map (\<lambda>(category, tabsInGroup). \<lparr>subject = JStr category, tabs = tabsInGroup\<rparr>) ?es"
  have s: "set ?es = set gs'"
    using mset_object_entries [of gs'] by (metis set_mset_mset)
  have "mset (map fst ?es) = mset (map fst gs')"
    using mset_object_entries [of gs'] by (metis mset_map)
  then have d: "distinct (map fst ?es)"
    using w by (metis mset_eq_imp_distinct_iff well_grouped_def)
  have ms: "map subject ?gs = map JStr (map fst ?es)" and mt: "map tabs ?gs = map snd ?es"
    by (simp_all add: case_prod_unfold comp_def)
  have 1: "distinct (map subject ?gs)"
    unfolding ms using d by (simp add: distinct_map inj_on_def)
  have 2: "\<forall>g \<in> set ?gs. tabs g \<noteq> []
           \<and> (\<forall>t \<in> set (tabs g). groupable t
                  \<and> (\<exists>k. categorizeTab h t = Inr k \<and> subject g = JStr k))"
    using w s by (fastforce simp: well_grouped_def)
  have 3: "mset (concat (map tabs ?gs)) = mset (filter groupable ts)"
    unfolding mt using mset_concat_snd [OF mset_object_entries [of gs']] m by simp
  have "createFallbackGrouping h (JArr ts)
      = Inr [\<lparr>groups = ?gs, suggestions = [JStr ''Group by semantic topic'',
                                      JStr ''Group by work context'',
                                      JStr ''Group by purpose and function'']\<rparr>]"
    using assms(1) c by (simp add: createFallbackGrouping_def)
  then show ?thesis
    using 1 2 3 by blast
qed

lemma createFallbackGrouping_no_tabs:
  "\<not> is_array input \<or> input = JArr []
   \<Longrightarrow> \<exists>sug. createFallbackGrouping h input = Inr [\<lparr>groups = [], suggestions = sug\<rparr>]"
  by (cases input) (auto simp: createFallbackGrouping_def)

lemma createFallbackGrouping_empty:
  "\<exists>r. createFallbackGrouping h (JArr []) = Inr r"
  by (simp add: createFallbackGrouping_def)

lemma createFallbackGrouping_constructor:
  "createFallbackGrouping sample_host (JArr [constructor_tab])
     = Inl (TypeError ''groups[category].push is not a function'')"
  by code_simp

text \<open>
  C10.  \<open>createFallbackGrouping\<close> on the one-element array holding a tab with a title and
  the url \<open>http://constructor/\<close> returns no AIResponse: it throws a TypeError.
\<close>

theorem createFallbackGrouping_throws:
  "createFallbackGrouping sample_host
     (JArr [JObj [(''id'', JNum 1), (''title'', JStr ''Intranet''),
                  (''url'', JStr ''http://constructor/'')]])
   = Inl (TypeError ''groups[category].push is not a function'')"
  by code_simp

section \<open>Repairing the reply\<close>

lemma rev_dropWhile_rev:
  "\<exists>post. xs = rev (dropWhile P (rev xs)) @ post \<and> (\<forall>c \<in> set post. P c)
     \<and> (rev (dropWhile P (rev xs)) \<noteq> [] \<longrightarrow> \<not> P (last (rev (dropWhile P (rev xs)))))"
proof -
  have "rev xs = takeWhile P (rev xs) @ dropWhile P (rev xs)"
    by simp
  then have "xs = rev (dropWhile P (rev xs)) @ rev (takeWhile P (rev xs))"
    by (metis rev_append rev_rev_ident)
  moreover have "\<forall>c \<in> set (rev (takeWhile P (rev xs))). P c"
    by (auto dest: set_takeWhileD)
  moreover have "rev (dropWhile P (rev xs)) \<noteq> [] \<longrightarrow> \<not> P (last (rev (dropWhile P (rev xs))))"
    by (simp add: last_rev hd_dropWhile)
  ultimately show ?thesis by blast
qed

text \<open>\<open>trim\<close> cuts white space off both ends and nothing else.\<close>

lemma trim_middle:
  "\<exists>pre post. s = pre @ trim s @ post
     \<and> (\<forall>c \<in> set pre. is_space c) \<and> (\<forall>c \<in> set post. is_space c)
     \<and> (trim s \<noteq> [] \<longrightarrow> \<not> is_space (hd (trim s)) \<and> \<not> is_space (last (trim s)))"
proof -
  let ?d = "dropWhile is_space s"
  obtain post where p: "?d = trim s @ post" "\<forall>c \<in> set post. is_space c"
      "trim s \<noteq> [] \<longrightarrow> \<not> is_space (last (trim s))"
    using rev_dropWhile_rev [of ?d is_space] unfolding trim_def by blast
  have s: "s = takeWhile is_space s @ ?d"
    by simp
  have h: "trim s \<noteq> [] \<longrightarrow> \<not> is_space (hd (trim s))"
  proof
    assume n: "trim s \<noteq> []"
    then have "?d \<noteq> []" using p(1) by auto
    then have "\<not> is_space (hd ?d)" by (rule hd_dropWhile)
    then show "\<not> is_space (hd (trim s))" using p(1) n by (metis hd_append2)
  qed
  have "s = takeWhile is_space s @ trim s @ post"
    using s p(1) by simp
  moreover have "\<forall>c \<in> set (takeWhile is_space s). is_space c"
    by (auto dest: set_takeWhileD)
  ultimately show ?thesis using p(2,3) h by blast
qed

text \<open>The match of \<open>/\{[\s\S]*\}/\<close> runs from the first \<open>{\<close> to the last \<open>}\<close>, and there is
  one exactly when some \<open>}\<close> follows some \<open>{\<close>.\<close>

lemma json_match_Some:
  assumes "json_match s = Some m"
  shows "\<exists>pre mid post. s = pre @ m @ post \<and> m = CHR ''{'' # mid @ [CHR ''}'']
           \<and> CHR ''{'' \<notin> set pre \<and> CHR ''}'' \<notin> set post"
proof -
  let ?t = "dropWhile (\<lambda>c. c \<noteq> CHR ''{'') s"
  have in_t: "CHR ''}'' \<in> set ?t" and m: "m = rev (dropWhile (\<lambda>c. c \<noteq> CHR ''}'') (rev ?t))"
    using assms by (auto simp: json_match_def Let_def split: if_splits)
  obtain post where p: "?t = m @ post" "\<forall>c \<in> set post. c \<noteq> CHR ''}''"
    using rev_dropWhile_rev [of ?t "\<lambda>c. c \<noteq> CHR ''}''"] m by blast
  have ne: "?t \<noteq> []"
    using in_t by (metis empty_iff list.set(1))
  then have hd_t: "hd ?t = CHR ''{''"
    using hd_dropWhile [of "\<lambda>c. c \<noteq> CHR ''{''" s] by simp
  have "CHR ''}'' \<in> set m"
    using in_t p by auto
  then have mne: "m \<noteq> []" by auto
  have "dropWhile (\<lambda>c. c \<noteq> CHR ''}'') (rev ?t) \<noteq> []"
    using mne m by auto
  then have "hd (dropWhile (\<lambda>c. c \<noteq> CHR ''}'') (rev ?t)) = CHR ''}''"
    using hd_dropWhile [of "\<lambda>c. c \<noteq> CHR ''}''" "rev ?t"] by simp
  then have last_m: "last m = CHR ''}''"
    using m mne by (simp add: last_rev)
  have hd_m: "hd m = CHR ''{''"
    using hd_t p(1) mne by (metis hd_append2)
  have "length m \<noteq> 1"
    using hd_m last_m mne by (cases m) auto
  then obtain mid where mid: "m = CHR ''{'' # mid @ [CHR ''}'']"
    using hd_m last_m mne
    by (metis append_butlast_last_id hd_Cons_tl last_tl length_Cons list.size(3) One_nat_def
        tl_Nil)
  have "s = takeWhile (\<lambda>c. c \<noteq> CHR ''{'') s @ m @ post"
    using p(1) by (metis takeWhile_dropWhile_id)
  moreover have "CHR ''{'' \<notin> set (takeWhile (\<lambda>c. c \<noteq> CHR ''{'') s)"
    by (auto dest: set_takeWhileD)
  ultimately show ?thesis using mid p(2) by blast
qed

lemma json_match_None:
  "json_match s = None \<longleftrightarrow> \<not> (\<exists>pre mid post. s = pre @ CHR ''{'' # mid @ CHR ''}'' # post)"
proof
  assume n: "json_match s = None"
  show "\<not> (\<exists>pre mid post. s = pre @ CHR ''{'' # mid @ CHR ''}'' # post)"
  proof
    assume "\<exists>pre mid post. s = pre @ CHR ''{'' # mid @ CHR ''}'' # post"
    then obtain pre mid post where s: "s = pre @ CHR ''{'' # mid @ CHR ''}'' # post"
      by blast
    have "CHR ''}'' \<in> set (dropWhile (\<lambda>c. c \<noteq> CHR ''{'') (pre @ CHR ''{'' # mid @ CHR ''}'' # post))"
      by (induction pre) auto
    then show False
      using n s by (simp add: json_match_def Let_def)
  qed
next
  assume a: "\<not> (\<exists>pre mid post. s = pre @ CHR ''{'' # mid @ CHR ''}'' # post)"
  show "json_match s = None"
  proof (rule ccontr)
    assume "json_match s \<noteq> None"
    then obtain m where "json_match s = Some m" by auto
    from json_match_Some [OF this] obtain pre mid post where
      "s = pre @ (CHR ''{'' # mid @ [CHR ''}'']) @ post"
      by blast
    then have "s = pre @ CHR ''{'' # mid @ CHR ''}'' # post" by simp
    then show False using a by blast
  qed
qed

text \<open>Removing trailing commas deletes commas and nothing else; quoting keys inserts
  double quotes and nothing else.\<close>

lemma remove_trailing_commas_only_commas:
  "filter (\<lambda>c. c \<noteq> CHR '','') (remove_trailing_commas s) = filter (\<lambda>c. c \<noteq> CHR '','') s"
proof (induction s rule: remove_trailing_commas.induct)
  case 1
  then show ?case by simp
next
  case (2 c cs)
  show ?case
  proof (cases "dropWhile is_space cs")
    case Nil
    have "remove_trailing_commas (c # cs) = c # remove_trailing_commas cs"
      by (simp only: remove_trailing_commas.simps Nil list.case)
    then show ?thesis using 2(1) [OF Nil] by simp
  next
    case (Cons b rest)
    have cs: "cs = takeWhile is_space cs @ b # rest"
      using Cons by (metis takeWhile_dropWhile_id)
    show ?thesis
    proof (cases "c = CHR '','' \<and> (b = CHR ''}'' \<or> b = CHR '']'')")
      case True
      then have "remove_trailing_commas (c # cs)
          = takeWhile is_space cs @ b # remove_trailing_commas rest"
        using Cons by simp
      moreover have "filter (\<lambda>c. c \<noteq> CHR '','') cs
          = filter (\<lambda>c. c \<noteq> CHR '','') (takeWhile is_space cs)
            @ filter (\<lambda>c. c \<noteq> CHR '','') (b # rest)"
        using cs by (metis filter_append)
      ultimately show ?thesis
        using 2(2) [OF Cons] True by auto
    next
      case False
      then have "remove_trailing_commas (c # cs) = c # remove_trailing_commas cs"
        using Cons by auto
      then show ?thesis
        using 2(3) [OF Cons] False by auto
    qed
  qed
qed

lemma quote_keys_only_quotes:
  "filter (\<lambda>c. c \<noteq> CHR 0x22) (quote_keys s) = filter (\<lambda>c. c \<noteq> CHR 0x22) s"
proof (induction s rule: quote_keys.induct)
  case 1
  then show ?case by simp
next
  case (2 c cs)
  let ?w = "dropWhile is_space cs"
  show ?case
  proof (cases "dropWhile is_word ?w")
    case Nil
    have "quote_keys (c # cs) = c # quote_keys cs"
      by (simp only: quote_keys.simps Nil list.case)
    then show ?thesis using 2(1) [OF Nil] by simp
  next
    case (Cons d rest)
    have cs: "cs = takeWhile is_space cs @ takeWhile is_word ?w @ d # rest"
      using Cons by (metis takeWhile_dropWhile_id)
    show ?thesis
    proof (cases "(c = CHR ''{'' \<or> c = CHR '','') \<and> takeWhile is_word ?w \<noteq> [] \<and> d = CHR '':''")
      case True
      then have "quote_keys (c # cs)
          = c # takeWhile is_space cs @ CHR 0x22 # takeWhile is_word ?w @ CHR 0x22 # CHR '':''
              # quote_keys rest"
        using Cons by simp
      moreover have "filter (\<lambda>c. c \<noteq> CHR 0x22) cs
          = filter (\<lambda>c. c \<noteq> CHR 0x22) (takeWhile is_space cs)
            @ filter (\<lambda>c. c \<noteq> CHR 0x22) (takeWhile is_word ?w)
            @ filter (\<lambda>c. c \<noteq> CHR 0x22) (d # rest)"
        using cs by (metis filter_append)
      ultimately show ?thesis
        using 2(2) [OF Cons] True by auto
    next
      case False
      then have "quote_keys (c # cs) = c # quote_keys cs"
        using Cons by auto
      then show ?thesis
        using 2(3) [OF Cons] False by auto
    qed
  qed
qed

section \<open>Analysing tabs\<close>

lemma getApiKey_well_formed:
  "getApiKey (area_with sample_key) = (Inr sample_key, area_with sample_key)"
  by (simp add: getApiKey_def storage_get_def getSetting_def area_get_def next_fault_def
      area_with_def own_or_inherited_def sample_key_def)

lemma sample_reply_repaired:
  "single_to_double_quotes (quote_keys (remove_trailing_commas
     (case json_match (trim sample_reply) of Some m \<Rightarrow> m | None \<Rightarrow> trim sample_reply)))
   = sample_repaired"
  by code_simp

text \<open>
  When the key is present and the endpoint answers with non-empty string content, the
  string handed to \<open>JSON.parse\<close> is the content trimmed, cut down to its first \<open>{\<close>
  through its last \<open>}\<close> when there is such a stretch, freed of trailing commas, given
  quoted keys and double-quoted string values, in this order.  When the parse throws,
  the outcome of \<open>analyzeTabs\<close> is that of the fallback grouping of the input tabs;
  otherwise it is the validated reply (or again the outcome of the fallback grouping,
  when the validation ends in an exception).
\<close>

lemma analyzeTabs_parse_outcome:
  assumes "getApiKey a = (Inr apiKey, a1)" and "truthy apiKey"
    and "fetch h \<lparr>endpoint = openai_url, bearer = apiKey, mappedTabs = map map_tab ts\<rparr>
           = Inr response"
    and "ok response" and "body_json response = Some data"
    and "response_content data = Inr (JStr content)" and "content \<noteq> []"
  shows "fst (analyzeTabs h (JArr ts) a) =
     (case JSON_parse h
             (single_to_double_quotes (quote_keys (remove_trailing_commas
                (case json_match (trim content) of Some m \<Rightarrow> m | None \<Rightarrow> trim content)))) of
        None \<Rightarrow> createFallbackGrouping h (JArr ts)
      | Some groupedTabs \<Rightarrow>
          (case validateAndFormatResponse h groupedTabs (JArr ts) of
             Inr result \<Rightarrow> Inr result
           | Inl e \<Rightarrow> createFallbackGrouping h (JArr ts)))"
  using assms
  by (simp add: analyzeTabs_def request_and_parse_def parse_and_validate_def parse_failed_def
      repair_def Let_def split: option.splits sum.splits)

lemma analyzeTabs_parse_outcome_example:
  "fst (analyzeTabs (reply_host sample_reply sample_repaired sample_parsed) (JArr [])
         (area_with sample_key))
   = Inr [\<lparr>groups = [\<lparr>subject = JStr ''Work'', tabs = []\<rparr>], suggestions = []\<rparr>]"
proof -
  let ?h = "reply_host sample_reply sample_repaired sample_parsed"
  have c: "response_content (completion sample_reply) = Inr (JStr sample_reply)"
    by (simp add: response_content_def completion_def optional_prop_def own_or_inherited_def
        sample_reply_def)
  have v: "validateAndFormatResponse ?h sample_parsed (JArr [])
      = Inr [\<lparr>groups = [\<lparr>subject = JStr ''Work'', tabs = []\<rparr>], suggestions = []\<rparr>]"
    by (simp add: validateAndFormatResponse_def sample_parsed_def own_or_inherited_def
        format_group_def array_or_empty_def object_prototype_keys_def)
  have p: "JSON_parse ?h sample_repaired = Some sample_parsed"
    by (simp add: reply_host_def)
  have k: "truthy sample_key"
    by (simp add: sample_key_def)
  have f: "fetch ?h \<lparr>endpoint = openai_url, bearer = sample_key, mappedTabs = map map_tab []\<rparr>
      = Inr \<lparr>ok = True, status = 200, body_text = Some [],
              body_json = Some (completion sample_reply)\<rparr>"
    by (simp add: reply_host_def)
  have "fst (analyzeTabs ?h (JArr []) (area_with sample_key)) =
     (case JSON_parse ?h
             (single_to_double_quotes (quote_keys (remove_trailing_commas
                (case json_match (trim sample_reply) of Some m \<Rightarrow> m
                 | None \<Rightarrow> trim sample_reply)))) of
        None \<Rightarrow> createFallbackGrouping ?h (JArr [])
      | Some groupedTabs \<Rightarrow>
          (case validateAndFormatResponse ?h groupedTabs (JArr []) of
             Inr result \<Rightarrow> Inr result
           | Inl e \<Rightarrow> createFallbackGrouping ?h (JArr [])))"
    by (rule analyzeTabs_parse_outcome [OF getApiKey_well_formed k f _ _ c])
       (simp_all add: sample_reply_def)
  then show ?thesis
    by (simp add: sample_reply_repaired p v)
qed

lemma analyzeTabs_result_cases:
  "fst (analyzeTabs h input a) =
     (case input of
        JArr ts \<Rightarrow>
          (case fst (getApiKey a) of
             Inl e \<Rightarrow> Inl e
           | Inr apiKey \<Rightarrow>
               if \<not> truthy apiKey then Inl (Error no_key_message)
               else (case request_and_parse h
                            \<lparr>endpoint = openai_url, bearer = apiKey, mappedTabs = map map_tab ts\<rparr>
                            input of
                       Inr result \<Rightarrow> Inr result
                     | Inl e \<Rightarrow> createFallbackGrouping h input))
      | _ \<Rightarrow> createFallbackGrouping h (JArr []))"
  by (cases "getApiKey a")
     (simp add: analyzeTabs_def Let_def split: jsval.splits sum.splits prod.splits)

lemma request_and_parse_throws:
  "request_and_parse h req input = Inr result \<Longrightarrow> createFallbackGrouping h input = Inl e
   \<Longrightarrow> \<exists>response data content v.
         fetch h req = Inr response \<and> body_json response = Some data
       \<and> response_content data = Inr (JStr content)
       \<and> JSON_parse h (repair content) = Some v
       \<and> validateAndFormatResponse h v input = Inr result"
  by (auto simp: request_and_parse_def parse_and_validate_def parse_failed_def
           split: sum.splits option.splits if_splits jsval.splits)

lemma broken_reply_repaired: "repair broken_reply = broken_repaired"
  by code_simp

lemma prose_reply_repaired: "repair prose_reply = prose_repaired"
  by code_simp

text \<open>The fallback grouping uses nothing of the host but its URL parser.\<close>

lemma categorize_host:
  "URL_hostname h = URL_hostname h' \<Longrightarrow> categorize h t u = categorize h' t u"
  by (simp add: categorize_def extractDomain_def Let_def)

lemma collect_groups_host:
  assumes "URL_hostname h = URL_hostname h'"
  shows "collect_groups h gs ts = collect_groups h' gs ts"
proof (induction ts arbitrary: gs)
  case Nil
  show ?case by simp
next
  case (Cons t ts)
  have "categorizeTab h t = categorizeTab h' t"
    by (simp add: categorizeTab_def categorize_host [OF assms] split: jsval.splits)
  then show ?case
    using Cons.IH by (simp split: sum.splits)
qed

lemma createFallbackGrouping_host:
  "URL_hostname h = URL_hostname h' \<Longrightarrow>
     createFallbackGrouping h input = createFallbackGrouping h' input"
  by (simp add: createFallbackGrouping_def collect_groups_host [of h h'] split: jsval.splits)

lemma createFallbackGrouping_rejecting_host:
  "createFallbackGrouping (rejecting_host content text) (JArr [constructor_tab])
     = Inl (TypeError ''groups[category].push is not a function'')"
proof -
  have "URL_hostname (rejecting_host content text) = URL_hostname sample_host"
    by (simp add: rejecting_host_def)
  from createFallbackGrouping_host [OF this] show ?thesis
    by (simp add: createFallbackGrouping_constructor)
qed

text \<open>When the parse throws and the fallback grouping of the input tabs returns,
  \<open>analyzeTabs\<close> returns that grouping.\<close>

lemma analyzeTabs_parse_failure_fallback:
  assumes "getApiKey a = (Inr apiKey, a1)" and "truthy apiKey"
    and "fetch h \<lparr>endpoint = openai_url, bearer = apiKey, mappedTabs = map map_tab ts\<rparr>
           = Inr response"
    and "ok response" and "body_json response = Some data"
    and "response_content data = Inr (JStr content)" and "content \<noteq> []"
    and "JSON_parse h (repair content) = None"
    and "createFallbackGrouping h (JArr ts) = Inr grouping"
  shows "fst (analyzeTabs h (JArr ts) a) = Inr grouping"
  using assms
  by (simp add: analyzeTabs_def request_and_parse_def parse_and_validate_def parse_failed_def
      Let_def)

text \<open>
  C2.  With a well-formed key in storage, on the one tab whose host name is
  \<open>constructor\<close>: the endpoint answers \<open>broken_reply\<close>, the string handed to \<open>JSON.parse\<close> is
  that reply trimmed, cut to its braces, freed of trailing commas, with quoted keys and
  double-quoted values, and the parse throws; \<open>analyzeTabs\<close> then does not return the
  fallback grouping but throws the TypeError raised inside it.  The same happens on
  \<open>prose_reply\<close>, where the string parsed is the reply trimmed.
\<close>

theorem analyzeTabs_parse_failure_throws:
  "fst (analyzeTabs (rejecting_host broken_reply broken_repaired) (JArr [constructor_tab])
          (area_with sample_key))
     = Inl (TypeError ''groups[category].push is not a function'')
   \<and> fst (analyzeTabs (rejecting_host prose_reply prose_repaired) (JArr [constructor_tab])
          (area_with sample_key))
     = Inl (TypeError ''groups[category].push is not a function'')"
proof -
  have k: "truthy sample_key"
    by (simp add: sample_key_def)
  have c: "response_content (completion content) = Inr (JStr content)" if "content \<noteq> []"
    for content
    using that
    by (simp add: response_content_def completion_def optional_prop_def own_or_inherited_def)
  have b: "broken_reply \<noteq> []" and p: "prose_reply \<noteq> []"
    by (simp_all add: broken_reply_def prose_reply_def)
  have r: "request_and_parse (rejecting_host content str) req (JArr [constructor_tab])
      = Inl (TypeError ''groups[category].push is not a function'')"
    if "content \<noteq> []" "repair content = str" for content str req
  proof -
    have f: "fetch (rejecting_host content str) req
        = Inr \<lparr>ok = True, status = 200, body_text = Some [],
                body_json = Some (completion content)\<rparr>"
      and j: "JSON_parse (rejecting_host content str) (repair content) = None"
      using that(2) by (simp_all add: rejecting_host_def)
    show ?thesis
      using that(1)
      by (simp add: request_and_parse_def parse_and_validate_def parse_failed_def f j
          c [OF that(1)] createFallbackGrouping_rejecting_host)
  qed
  show ?thesis
    using r [OF b broken_reply_repaired] r [OF p prose_reply_repaired] k
    by (simp add: analyzeTabs_result_cases getApiKey_well_formed
        createFallbackGrouping_rejecting_host)
qed

text \<open>Every exception that leaves \<open>analyzeTabs\<close> is the missing-key error, a failed
  removal of a malformed key, or one thrown by the fallback grouping itself.\<close>

lemma analyzeTabs_throws_only:
  assumes "fst (analyzeTabs h input a) = Inl e"
  shows "e = Error no_key_message \<or> fst (getApiKey a) = Inl e
         \<or> createFallbackGrouping h input = Inl e"
  using assms createFallbackGrouping_empty [of h]
  by (auto simp: analyzeTabs_result_cases split: jsval.splits sum.splits if_splits)

text \<open>
  C3.  With a well-formed key in storage and a network error from the AI endpoint,
  \<open>analyzeTabs\<close> on one tab whose host name is \<open>constructor\<close> does not return a fallback
  grouping: the TypeError raised inside the fallback grouping leaves \<open>analyzeTabs\<close>.
\<close>

theorem analyzeTabs_throws_TypeError:
  "fst (analyzeTabs sample_host (JArr [constructor_tab]) (area_with sample_key))
     = Inl (TypeError ''groups[category].push is not a function'')"
proof -
  have "request_and_parse sample_host req (JArr [constructor_tab]) = Inl (TypeError ''Failed to fetch'')"
    for req
    by (simp add: request_and_parse_def sample_host_def)
  moreover have "truthy sample_key"
    by (simp add: sample_key_def)
  ultimately show ?thesis
    by (simp add: analyzeTabs_result_cases getApiKey_well_formed
        createFallbackGrouping_constructor)
qed

text \<open>
  C6.  One invocation of \<open>analyzeTabs\<close> makes at most one HTTP request, and only to
  the chat-completions endpoint; what it returns is the fallback grouping or the
  validated form of the content of the one response.
\<close>

theorem analyzeTabs_single_request:
  assumes "analyzeTabs h input a = (outcome, a', requests)"
  shows "length requests \<le> 1
     \<and> (\<forall>req \<in> set requests. endpoint req = openai_url)
     \<and> (\<forall>result. outcome = Inr result \<longrightarrow>
           outcome = createFallbackGrouping h input
         \<or> (\<not> is_array input \<and> outcome = createFallbackGrouping h (JArr []))
         \<or> (\<exists>req response data content v.
               requests = [req] \<and> fetch h req = Inr response
             \<and> body_json response = Some data
             \<and> response_content data = Inr (JStr content)
             \<and> JSON_parse h (repair content) = Some v
             \<and> outcome = validateAndFormatResponse h v input))"
proof -
  have 1: "length requests \<le> 1 \<and> (\<forall>req \<in> set requests. endpoint req = openai_url)"
    using assms
    by (auto simp: analyzeTabs_def Let_def split: jsval.splits sum.splits prod.splits if_splits)
  have 2: "outcome = createFallbackGrouping h input
         \<or> (\<not> is_array input \<and> outcome = createFallbackGrouping h (JArr []))
         \<or> (\<exists>req response data content v.
               requests = [req] \<and> fetch h req = Inr response
             \<and> body_json response = Some data
             \<and> response_content data = Inr (JStr content)
             \<and> JSON_parse h (repair content) = Some v
             \<and> outcome = validateAndFormatResponse h v input)"
    if "outcome = Inr result" for result
  proof (cases input)
    case (JArr ts)
    obtain k a1 where g: "getApiKey a = (k, a1)"
      by (cases "getApiKey a")
    show ?thesis
    proof (cases k)
      case (Inl e)
      then show ?thesis using assms that JArr g by (simp add: analyzeTabs_def)
    next
      case (Inr apiKey)
      let ?req = "\<lparr>endpoint = openai_url, bearer = apiKey, mappedTabs = map map_tab ts\<rparr>"
      have t: "truthy apiKey"
        using assms that JArr g Inr by (auto simp: analyzeTabs_def split: if_splits)
      show ?thesis
      proof (cases "request_and_parse h ?req input")
        case (Inl e)
        then have "outcome = createFallbackGrouping h input"
          using assms JArr g Inr t by (simp add: analyzeTabs_def Let_def)
        then show ?thesis by simp
      next
        case r: (Inr res)
        then have o: "outcome = Inr res" "requests = [?req]"
          using assms JArr g Inr t by (simp_all add: analyzeTabs_def Let_def)
        show ?thesis
        proof (cases "createFallbackGrouping h input")
          case (Inl e)
          from request_and_parse_throws [OF r Inl] o show ?thesis by auto
        next
          case f: (Inr fb)
          from r have "res = fb
              \<or> (\<exists>response data content v.
                   fetch h ?req = Inr response \<and> body_json response = Some data
                 \<and> response_content data = Inr (JStr content)
                 \<and> JSON_parse h (repair content) = Some v
                 \<and> validateAndFormatResponse h v input = Inr res)"
            using f
            by (auto simp: request_and_parse_def parse_and_validate_def parse_failed_def
                     split: sum.splits option.splits if_splits jsval.splits)
          then show ?thesis using o f by auto
        qed
      qed
    qed
  qed (use assms that in \<open>auto simp: analyzeTabs_def\<close>)
  show ?thesis using 1 2 by blast
qed

theorem analyzeTabs_single_request_witness:
  "length (snd (snd (analyzeTabs (reply_host sample_reply sample_repaired sample_parsed)
                       (JArr []) (area_with sample_key)))) \<le> 1
   \<and> length (snd (snd (analyzeTabs (reply_host sample_reply sample_repaired sample_parsed)
                       (JArr []) (area_with sample_key)))) = 1"
proof -
  let ?r = "analyzeTabs (reply_host sample_reply sample_repaired sample_parsed)
              (JArr []) (area_with sample_key)"
  have "?r = (fst ?r, fst (snd ?r), snd (snd ?r))"
    by simp
  from analyzeTabs_single_request [OF this] have "length (snd (snd ?r)) \<le> 1"
    by blast
  moreover have "truthy sample_key"
    by (simp add: sample_key_def)
  then have "length (snd (snd ?r)) = 1"
    by (simp add: analyzeTabs_def getApiKey_well_formed Let_def split: sum.splits)
  ultimately show ?thesis by simp
qed

section \<open>Creating tab groups\<close>

lemma ungroup_each_calls:
  "ungroup_each b allTabs gs cs = cs @ expected_ungroup_calls allTabs gs"
  by (induction gs arbitrary: cs)
     (simp_all add: expected_ungroup_calls_def Let_def split: option.splits)

lemma create_each_calls:
  "\<exists>xs. create_each b entries cs = cs @ xs
        \<and> filter is_group_call xs = expected_group_calls entries
        \<and> (\<forall>c \<in> set xs. \<not> is_ungroup_call c)"
proof (induction entries arbitrary: cs)
  case Nil
  then show ?case by (simp add: expected_group_calls_def)
next
  case (Cons e entries)
  obtain groupName ts where e: "e = (groupName, ts)" by (cases e)
  show ?case
  proof (cases "valid_entry e \<and> entry_ids e \<noteq> []")
    case False
    then have "create_each b (e # entries) cs = create_each b entries cs"
      using e by (auto simp: entry_ids_def Let_def)
    moreover have "expected_group_calls (e # entries) = expected_group_calls entries"
      using False by (auto simp: expected_group_calls_def)
    ultimately show ?thesis using Cons.IH [of cs] by simp
  next
    case True
    let ?ids = "entry_ids e"
    have x: "expected_group_calls (e # entries) = TabsGroup ?ids # expected_group_calls entries"
      using True by (simp add: expected_group_calls_def)
    obtain ys where ys: "create_each b (e # entries) cs = create_each b entries (cs @ TabsGroup ?ids # ys)"
      "filter is_group_call ys = []" "\<forall>c \<in> set ys. \<not> is_ungroup_call c"
    proof (cases "tabs_group b cs ?ids")
      case (Inl err)
      then have "create_each b (e # entries) cs = create_each b entries (cs @ TabsGroup ?ids # [])"
        using True e by (simp add: entry_ids_def Let_def)
      then show ?thesis using that [of "[]"] by simp
    next
      case (Inr newGroupId)
      show ?thesis
      proof (cases "tabGroups_api b \<and> tabGroups_update_api b")
        case u: True
        then have "create_each b (e # entries) cs = create_each b entries
            (cs @ TabsGroup ?ids # [TabGroupsUpdate newGroupId groupName (getGroupColor groupName)])"
          using True e Inr by (simp add: entry_ids_def Let_def split: option.splits)
        then show ?thesis
          using that [of "[TabGroupsUpdate newGroupId groupName (getGroupColor groupName)]"]
          by simp
      next
        case False
        then have "create_each b (e # entries) cs = create_each b entries (cs @ TabsGroup ?ids # [])"
          using True e Inr by (auto simp: entry_ids_def Let_def)
        then show ?thesis using that [of "[]"] by simp
      qed
    qed
    obtain xs where xs: "create_each b entries (cs @ TabsGroup ?ids # ys) = (cs @ TabsGroup ?ids # ys) @ xs"
      "filter is_group_call xs = expected_group_calls entries" "\<forall>c \<in> set xs. \<not> is_ungroup_call c"
      using Cons.IH [of "cs @ TabsGroup ?ids # ys"] by blast
    show ?thesis
      by (rule exI [of _ "TabsGroup ?ids # ys @ xs"]) (use ys xs x in auto)
  qed
qed

lemma ungroupAllTabs_calls:
  "\<exists>us. ungroupAllTabs b allTabs cs = cs @ us
        \<and> (\<forall>c \<in> set us. \<not> is_group_call c)
        \<and> (tabGroups_api b \<and> tabGroups_query_api b \<longrightarrow>
             (\<forall>existingGroups. tabGroups_query b cs = Inr existingGroups \<longrightarrow>
                us = TabGroupsQuery # expected_ungroup_calls allTabs existingGroups))"
  by (auto simp: ungroupAllTabs_def ungroup_each_calls expected_ungroup_calls_def
           split: sum.splits)

lemma saveGroupedTabs_calls: "calls (saveGroupedTabs now g) = calls g"
  by (simp add: saveGroupedTabs_def Let_def split: prod.splits sum.splits)

text \<open>The shape of every invocation that gets as far as asking for the tabs.\<close>

lemma createTabGroups_calls:
  assumes "tabs_group_api b" and "tabs_query b (calls g) = Inr allTabs"
  shows "\<exists>us xs.
      calls (createTabGroups b now (Some entries) g)
        = calls g @ [TabsQuery] @ us @ [Delay 200] @ xs
    \<and> (\<forall>c \<in> set us. \<not> is_group_call c)
    \<and> (\<forall>c \<in> set xs. \<not> is_ungroup_call c)
    \<and> filter is_group_call xs = expected_group_calls entries
    \<and> (tabGroups_api b \<and> tabGroups_query_api b \<longrightarrow>
         (\<forall>existingGroups. tabGroups_query b (calls g @ [TabsQuery]) = Inr existingGroups \<longrightarrow>
            us = TabGroupsQuery # expected_ungroup_calls allTabs existingGroups))"
proof -
  obtain us where us: "ungroupAllTabs b allTabs (calls g @ [TabsQuery]) = (calls g @ [TabsQuery]) @ us"
    "\<forall>c \<in> set us. \<not> is_group_call c"
    "tabGroups_api b \<and> tabGroups_query_api b \<longrightarrow>
       (\<forall>existingGroups. tabGroups_query b (calls g @ [TabsQuery]) = Inr existingGroups \<longrightarrow>
          us = TabGroupsQuery # expected_ungroup_calls allTabs existingGroups)"
    using ungroupAllTabs_calls [of b allTabs "calls g @ [TabsQuery]"] by blast
  obtain xs where xs:
    "create_each b entries ((calls g @ [TabsQuery]) @ us @ [Delay 200])
       = ((calls g @ [TabsQuery]) @ us @ [Delay 200]) @ xs"
    "filter is_group_call xs = expected_group_calls entries"
    "\<forall>c \<in> set xs. \<not> is_ungroup_call c"
    using create_each_calls [of b entries "(calls g @ [TabsQuery]) @ us @ [Delay 200]"] by blast
  have "calls (createTabGroups b now (Some entries) g)
      = calls g @ [TabsQuery] @ us @ [Delay 200] @ xs"
    using assms us(1) xs(1)
    by (simp add: createTabGroups_def Let_def saveGroupedTabs_calls)
  then show ?thesis using us(2,3) xs(2,3) by blast
qed

lemma sample_expected_group_calls:
  "expected_group_calls sample_entries = [TabsGroup [1, 2], TabsGroup [3]]"
  by code_simp

lemma sample_expected_ungroup_calls:
  "expected_ungroup_calls sample_tabs sample_groups = [TabsUngroup [1, 2], TabsUngroup [3]]"
  by code_simp

text \<open>
  C1.  The calls of one invocation split in two: whatever is called first contains no
  \<open>tabs.group\<close>, whatever is called after it contains no \<open>tabs.ungroup\<close>.  On a browser
  that supports tab groups and answers both queries, the first part passes to
  \<open>tabs.ungroup\<close>, for every group \<open>tabGroups.query\<close> returned, the tabs of that group
  (the tabs of the queried tab list that carry the group's id and have an id of their
  own; a group without such a tab has nothing to pass).
\<close>

theorem createTabGroups_two_phase:
  "\<exists>first second.
      calls (createTabGroups b now groupedTabs g) = calls g @ first @ second
    \<and> (\<forall>c \<in> set first. \<not> is_group_call c)
    \<and> (\<forall>c \<in> set second. \<not> is_ungroup_call c)
    \<and> (\<forall>entries allTabs existingGroups.
          tabs_group_api b \<and> groupedTabs = Some entries
          \<and> tabs_query b (calls g) = Inr allTabs
          \<and> tabGroups_api b \<and> tabGroups_query_api b
          \<and> tabGroups_query b (calls g @ [TabsQuery]) = Inr existingGroups
          \<longrightarrow> (\<forall>grp \<in> set existingGroups.
                 ids_in_group allTabs grp \<noteq> []
                 \<longrightarrow> TabsUngroup (ids_in_group allTabs grp) \<in> set first))"
proof (cases "tabs_group_api b \<and> (\<exists>entries allTabs. groupedTabs = Some entries
      \<and> tabs_query b (calls g) = Inr allTabs)")
  case True
  then obtain entries allTabs where h: "tabs_group_api b" "groupedTabs = Some entries"
      "tabs_query b (calls g) = Inr allTabs"
    by blast
  from createTabGroups_calls [OF h(1) h(3), of now entries] obtain us xs where
    c: "calls (createTabGroups b now (Some entries) g)
          = calls g @ [TabsQuery] @ us @ [Delay 200] @ xs"
    and u: "\<forall>c \<in> set us. \<not> is_group_call c"
    and x: "\<forall>c \<in> set xs. \<not> is_ungroup_call c"
    and q: "tabGroups_api b \<and> tabGroups_query_api b \<longrightarrow>
         (\<forall>existingGroups. tabGroups_query b (calls g @ [TabsQuery]) = Inr existingGroups \<longrightarrow>
            us = TabGroupsQuery # expected_ungroup_calls allTabs existingGroups)"
    by blast
  have cover: "TabsUngroup (ids_in_group allTabs grp) \<in> set ([TabsQuery] @ us @ [Delay 200])"
    if "tabGroups_api b" "tabGroups_query_api b"
      "tabGroups_query b (calls g @ [TabsQuery]) = Inr existingGroups"
      "grp \<in> set existingGroups" "ids_in_group allTabs grp \<noteq> []"
    for existingGroups grp
  proof -
    have "us = TabGroupsQuery # expected_ungroup_calls allTabs existingGroups"
      using q that(1-3) by blast
    then show ?thesis
      using that(4,5) by (auto simp: expected_ungroup_calls_def)
  qed
  show ?thesis
  proof (intro exI conjI)
    show "calls (createTabGroups b now groupedTabs g)
        = calls g @ ([TabsQuery] @ us @ [Delay 200]) @ xs"
      using c h(2) by simp
    show "\<forall>c \<in> set ([TabsQuery] @ us @ [Delay 200]). \<not> is_group_call c"
      using u by auto
    show "\<forall>c \<in> set xs. \<not> is_ungroup_call c"
      by (rule x)
    show "\<forall>entries allTabs existingGroups.
          tabs_group_api b \<and> groupedTabs = Some entries
          \<and> tabs_query b (calls g) = Inr allTabs
          \<and> tabGroups_api b \<and> tabGroups_query_api b
          \<and> tabGroups_query b (calls g @ [TabsQuery]) = Inr existingGroups
          \<longrightarrow> (\<forall>grp \<in> set existingGroups.
                 ids_in_group allTabs grp \<noteq> []
                 \<longrightarrow> TabsUngroup (ids_in_group allTabs grp)
                        \<in> set ([TabsQuery] @ us @ [Delay 200]))"
      using cover h(3) by auto
  qed
next
  case False
  then have "calls (createTabGroups b now groupedTabs g) = calls g
      \<or> calls (createTabGroups b now groupedTabs g) = calls g @ [TabsQuery]"
    by (auto simp: createTabGroups_def Let_def saveGroupedTabs_calls
             split: option.splits sum.splits)
  then show ?thesis
  proof
    assume "calls (createTabGroups b now groupedTabs g) = calls g"
    then show ?thesis
      using False by (intro exI [of _ "[]"]) auto
  next
    assume "calls (createTabGroups b now groupedTabs g) = calls g @ [TabsQuery]"
    then show ?thesis
      using False by (intro exI [of _ "[TabsQuery]"] exI [of _ "[]"]) auto
  qed
qed

theorem createTabGroups_two_phase_witness:
  "\<exists>first second.
      calls (createTabGroups failing_browser 0 (Some sample_entries) new_grouper) = first @ second
    \<and> (\<forall>c \<in> set first. \<not> is_group_call c)
    \<and> (\<forall>c \<in> set second. \<not> is_ungroup_call c)
    \<and> TabsUngroup [1, 2] \<in> set first \<and> TabsUngroup [3] \<in> set first"
proof -
  obtain first second where
    c: "calls (createTabGroups failing_browser 0 (Some sample_entries) new_grouper)
          = calls new_grouper @ first @ second"
    and f: "\<forall>c \<in> set first. \<not> is_group_call c"
    and s: "\<forall>c \<in> set second. \<not> is_ungroup_call c"
    and u: "\<forall>entries allTabs existingGroups.
          tabs_group_api failing_browser \<and> Some sample_entries = Some entries
          \<and> tabs_query failing_browser (calls new_grouper) = Inr allTabs
          \<and> tabGroups_api failing_browser \<and> tabGroups_query_api failing_browser
          \<and> tabGroups_query failing_browser (calls new_grouper @ [TabsQuery]) = Inr existingGroups
          \<longrightarrow> (\<forall>grp \<in> set existingGroups.
                 ids_in_group allTabs grp \<noteq> []
                 \<longrightarrow> TabsUngroup (ids_in_group allTabs grp) \<in> set first)"
    using createTabGroups_two_phase [of failing_browser 0 "Some sample_entries" new_grouper]
    by blast
  have g: "\<forall>grp \<in> set sample_groups.
             ids_in_group sample_tabs grp \<noteq> []
             \<longrightarrow> TabsUngroup (ids_in_group sample_tabs grp) \<in> set first"
    using u [rule_format, of sample_entries sample_tabs sample_groups]
    by (simp add: failing_browser_def)
  have "TabsUngroup [1, 2] \<in> set first"
    using g [rule_format, of "\<lparr>group_id = 7, group_title = ''Old''\<rparr>"]
    by (simp add: sample_groups_def sample_tabs_def ids_in_group_def List.map_filter_simps)
  moreover have "TabsUngroup [3] \<in> set first"
    using g [rule_format, of "\<lparr>group_id = 8, group_title = []\<rparr>"]
    by (simp add: sample_groups_def sample_tabs_def ids_in_group_def List.map_filter_simps)
  ultimately show ?thesis
    using c f s by (auto simp: new_grouper_def)
qed

text \<open>
  C7.  Whatever fails on the way, the \<open>tabs.group\<close> calls of an invocation that got the
  tab list are those of the valid, non-empty entries of the map, one per entry and in
  the map's order; and once \<open>tabGroups.query\<close> has answered, the \<open>tabs.ungroup\<close> calls
  are those of all the groups it returned.  The browser \<open>b\<close> is arbitrary: it may fail
  any \<open>tabs.group\<close>, \<open>tabGroups.update\<close> or \<open>tabs.ungroup\<close> call and the group query
  itself.
\<close>

theorem createTabGroups_failures_do_not_abort:
  assumes "tabs_group_api b" and "tabs_query b (calls g) = Inr allTabs"
  shows "filter is_group_call
           (drop (length (calls g)) (calls (createTabGroups b now (Some entries) g)))
         = expected_group_calls entries
     \<and> (tabGroups_api b \<and> tabGroups_query_api b
          \<and> tabGroups_query b (calls g @ [TabsQuery]) = Inr existingGroups
        \<longrightarrow> filter is_ungroup_call
              (drop (length (calls g)) (calls (createTabGroups b now (Some entries) g)))
            = expected_ungroup_calls allTabs existingGroups)"
proof -
  from createTabGroups_calls [OF assms, of now entries] obtain us xs where
    c: "calls (createTabGroups b now (Some entries) g)
          = calls g @ [TabsQuery] @ us @ [Delay 200] @ xs"
    and u: "\<forall>c \<in> set us. \<not> is_group_call c"
    and x: "\<forall>c \<in> set xs. \<not> is_ungroup_call c"
    and e: "filter is_group_call xs = expected_group_calls entries"
    and q: "tabGroups_api b \<and> tabGroups_query_api b \<longrightarrow>
         (\<forall>existingGroups. tabGroups_query b (calls g @ [TabsQuery]) = Inr existingGroups \<longrightarrow>
            us = TabGroupsQuery # expected_ungroup_calls allTabs existingGroups)"
    by blast
  have d: "drop (length (calls g)) (calls (createTabGroups b now (Some entries) g))
      = [TabsQuery] @ us @ [Delay 200] @ xs"
    using c by simp
  have "filter is_group_call us = []" "filter is_ungroup_call xs = []"
    using u x by (simp_all add: filter_empty_conv)
  then have 1: "filter is_group_call ([TabsQuery] @ us @ [Delay 200] @ xs)
      = expected_group_calls entries"
    and 2: "filter is_ungroup_call ([TabsQuery] @ us @ [Delay 200] @ xs)
      = filter is_ungroup_call us"
    using e by simp_all
  have 3: "filter is_ungroup_call (TabGroupsQuery # expected_ungroup_calls allTabs existingGroups)
      = expected_ungroup_calls allTabs existingGroups"
    by (simp add: expected_ungroup_calls_def filter_map comp_def)
  show ?thesis
    using d 1 2 3 q by auto
qed

theorem createTabGroups_failures_do_not_abort_witness:
  "filter is_group_call (calls (createTabGroups failing_browser 0 (Some sample_entries) new_grouper))
     = [TabsGroup [1, 2], TabsGroup [3]]
   \<and> filter is_ungroup_call
       (calls (createTabGroups failing_browser 0 (Some sample_entries) new_grouper))
     = [TabsUngroup [1, 2], TabsUngroup [3]]"
proof -
  have a: "tabs_group_api failing_browser"
    and b: "tabs_query failing_browser (calls new_grouper) = Inr sample_tabs"
    and c: "tabGroups_api failing_browser \<and> tabGroups_query_api failing_browser
      \<and> tabGroups_query failing_browser (calls new_grouper @ [TabsQuery]) = Inr sample_groups"
    by (simp_all add: failing_browser_def)
  have "length (calls new_grouper) = 0"
    by (simp add: new_grouper_def)
  with createTabGroups_failures_do_not_abort [OF a b, of 0 sample_entries sample_groups] c
  show ?thesis
    by (simp add: sample_expected_group_calls sample_expected_ungroup_calls)
qed

end
